theory Spec2Isabelle
  imports Main
begin

section \<open>Data model\<close>

text \<open>
  The program (\<^verbatim>\<open>src/main.py\<close>) backs up one random image per breed or sub-breed from the
  Dog CEO catalog to Yandex Disk. It is sequential; its only effects are HTTP requests, appends to
  \<^verbatim>\<open>self.results\<close> and the final manifest file.

  Exceptions the source can raise on the data it receives. A raise leaves the state as it was
  mutated so far, so every operation returns the state together with its outcome.
\<close>

datatype error = KeyError | TypeError | AttributeError | ValueError | JSONDecodeError

datatype outcome = Done | Raised error

text \<open>
  Payloads follow the source's type hints: \<^verbatim>\<open>get_breed_image -> Optional[str]\<close> reads a
  dictionary of strings, \<^verbatim>\<open>sub_breeds: List[str]\<close> makes the breed listing a dictionary from
  breed names to lists of names. A dictionary is an association list in insertion order
  (Python keeps it); Python's keys are distinct. Keys may be missing: that is a \<open>KeyError\<close>.
\<close>

datatype pyval = PStr string | PBreeds "(string \<times> string list) list"

type_synonym image_payload = "(string \<times> string) list"
type_synonym catalog_payload = "(string \<times> pyval) list"

text \<open>
  The remote services. The run is sequential, so the \<open>n\<close>-th request of a run is answered by the
  \<open>n\<close>-th entry of the world: any sequence of answers is possible, also different answers to
  the same request. An answer is the HTTP status code and, for the catalog, the body as
  \<^verbatim>\<open>response.json()\<close> parses it (\<open>None\<close>: the body is not JSON). Every request is answered:
  transport faults (no network) are outside the model. \<open>netloc_valid\<close> stands for the checks
  of \<^verbatim>\<open>urllib.parse\<close> on bracketed and non-ASCII hosts, which depend on the Python version.
\<close>

record world =
  put_status :: "nat \<Rightarrow> int"
  post_status :: "nat \<Rightarrow> int"
  catalog_response :: "nat \<Rightarrow> int \<times> catalog_payload option"
  image_response :: "nat \<Rightarrow> int \<times> image_payload option"
  netloc_valid :: "string \<Rightarrow> bool"

text \<open>
  The calls made so far, each with its arguments and the answer it received; \<open>GetBreedImage\<close>
  also holds the URL that was queried.
\<close>

datatype event =
    CreateFolder string int
  | UploadFromUrl string string int
  | GetAllBreeds int "catalog_payload option"
  | GetBreedImage string "string option" string int "image_payload option"

text \<open>The dictionaries built at lines 131-135 and 140-144, and at lines 167-183.\<close>

record image_candidate =
  img_url :: string
  img_breed :: string
  img_sub_breed :: "string option"

record transfer_record =
  breed :: string
  sub_breed :: "string option"
  filename :: string
  original_url :: string
  disk_path :: string
  status :: string

text \<open>
  \<open>results\<close> is \<^verbatim>\<open>self.results\<close>; \<open>calls\<close> is the trace of requests; \<open>files\<close> is the local
  file system, a file's content being the list that \<^verbatim>\<open>json.dump\<close> serialises into it (a JSON
  array with one object per record).
\<close>

record state =
  results :: "transfer_record list"
  calls :: "event list"
  files :: "string \<rightharpoonup> transfer_record list"

definition init_state :: "(string \<rightharpoonup> transfer_record list) \<Rightarrow> state" where
  "init_state fs = \<lparr>results = [], calls = [], files = fs\<rparr>"

section \<open>Python primitives\<close>

text \<open>Truthiness of a string and of an optional string (\<^verbatim>\<open>if sub_breed:\<close>).\<close>

definition truthy :: "string option \<Rightarrow> bool" where
  "truthy v = (case v of None \<Rightarrow> False | Some s \<Rightarrow> s \<noteq> [])"

fun starts_with :: "string \<Rightarrow> string \<Rightarrow> bool" where
  "starts_with [] s = True"
| "starts_with (p # ps) [] = False"
| "starts_with (p # ps) (c # cs) = (p = c \<and> starts_with ps cs)"

text \<open>\<^verbatim>\<open>p in s\<close> on strings: \<open>p\<close> occurs in \<open>s\<close>.\<close>

fun is_substring :: "string \<Rightarrow> string \<Rightarrow> bool" where
  "is_substring p [] = (p = [])"
| "is_substring p (c # cs) = (starts_with p (c # cs) \<or> is_substring p cs)"

subsection \<open>\<^verbatim>\<open>os.path.basename\<close> (POSIX) and \<^verbatim>\<open>urllib.parse.urlparse(url).path\<close>\<close>

text \<open>\<^verbatim>\<open>posixpath.basename\<close>: \<^verbatim>\<open>p[p.rfind('/') + 1:]\<close>; \<open>dirpart\<close> is the rest, \<^verbatim>\<open>p[:p.rfind('/') + 1]\<close>.\<close>

definition basename :: "string \<Rightarrow> string" where
  "basename p = rev (takeWhile (\<lambda>c. c \<noteq> CHR ''/'') (rev p))"

definition dirpart :: "string \<Rightarrow> string" where
  "dirpart p = rev (dropWhile (\<lambda>c. c \<noteq> CHR ''/'') (rev p))"

definition c0_or_space :: "char \<Rightarrow> bool" where
  "c0_or_space c = ((of_char c :: nat) \<le> 32)"

definition unsafe_byte :: "char \<Rightarrow> bool" where
  "unsafe_byte c = ((of_char c :: nat) = 9 \<or> (of_char c :: nat) = 13 \<or> (of_char c :: nat) = 10)"

definition ascii_upper :: "char \<Rightarrow> bool" where
  "ascii_upper c = (65 \<le> (of_char c :: nat) \<and> (of_char c :: nat) \<le> 90)"

definition ascii_lower :: "char \<Rightarrow> bool" where
  "ascii_lower c = (97 \<le> (of_char c :: nat) \<and> (of_char c :: nat) \<le> 122)"

definition ascii_digit :: "char \<Rightarrow> bool" where
  "ascii_digit c = (48 \<le> (of_char c :: nat) \<and> (of_char c :: nat) \<le> 57)"

definition ascii_alpha :: "char \<Rightarrow> bool" where
  "ascii_alpha c = (ascii_upper c \<or> ascii_lower c)"

definition scheme_char :: "char \<Rightarrow> bool" where
  "scheme_char c = (ascii_alpha c \<or> ascii_digit c \<or> c = CHR ''+'' \<or> c = CHR ''-'' \<or> c = CHR ''.'')"

definition lower_char :: "char \<Rightarrow> char" where
  "lower_char c = (if ascii_upper c then char_of ((of_char c :: nat) + 32) else c)"

definition uses_params :: "string list" where
  "uses_params = ['''', ''ftp'', ''hdl'', ''prospero'', ''http'', ''imap'', ''https'', ''shttp'',
     ''rtsp'', ''rtsps'', ''rtspu'', ''sip'', ''sips'', ''mms'', ''sftp'', ''tel'']"

text \<open>
  \<^verbatim>\<open>urlsplit\<close>, the scheme: \<^verbatim>\<open>i = url.find(':')\<close>; when \<^verbatim>\<open>i > 0\<close>, the first character is an
  ASCII letter and all of \<^verbatim>\<open>url[:i]\<close> are scheme characters, the scheme is \<^verbatim>\<open>url[:i].lower()\<close>
  and the url goes on after the colon.
\<close>

definition split_scheme :: "string \<Rightarrow> string \<times> string" where
  "split_scheme url =
     (let pre = takeWhile (\<lambda>c. c \<noteq> CHR '':'') url in
      if length pre < length url \<and> pre \<noteq> [] \<and> ascii_alpha (hd pre) \<and> list_all scheme_char pre
      then (map lower_char pre, drop (length pre + 1) url)
      else ([], url))"

definition netloc_delim :: "char \<Rightarrow> bool" where
  "netloc_delim c = (c = CHR ''/'' \<or> c = CHR ''?'' \<or> c = CHR ''#'')"

text \<open>\<^verbatim>\<open>_splitnetloc(url, 2)\<close> when the url starts with \<^verbatim>\<open>//\<close>.\<close>

definition split_netloc :: "string \<Rightarrow> string \<times> string" where
  "split_netloc url =
     (if take 2 url = ''//''
      then (takeWhile (\<lambda>c. \<not> netloc_delim c) (drop 2 url),
            dropWhile (\<lambda>c. \<not> netloc_delim c) (drop 2 url))
      else ([], url))"

text \<open>
  The checks on the host: one bracket without the other is \<^verbatim>\<open>ValueError("Invalid IPv6 URL")\<close>;
  a bracketed or non-ASCII host is checked by the library (\<open>netloc_valid\<close>).
\<close>

definition check_netloc :: "world \<Rightarrow> string \<Rightarrow> bool" where
  "check_netloc w netloc =
     (if (CHR ''['' \<in> set netloc) \<noteq> (CHR '']'' \<in> set netloc) then False
      else if CHR ''['' \<in> set netloc \<or> (\<exists>c \<in> set netloc. (of_char c :: nat) \<ge> 128)
           then netloc_valid w netloc
      else True)"

text \<open>\<^verbatim>\<open>_splitparams(url)[0]\<close>: the url up to the first \<^verbatim>\<open>;\<close> of its last segment.\<close>

definition splitparams :: "string \<Rightarrow> string" where
  "splitparams url =
     (if CHR ''/'' \<in> set url
      then dirpart url @ takeWhile (\<lambda>c. c \<noteq> CHR '';'') (basename url)
      else takeWhile (\<lambda>c. c \<noteq> CHR '';'') url)"

text \<open>
  \<^verbatim>\<open>urlparse(url).path\<close>: leading C0 control characters and spaces are stripped, tabs and
  newlines removed; scheme and host are split off; the fragment (from the first \<^verbatim>\<open>#\<close>) and
  then the query (from the first \<^verbatim>\<open>?\<close>) are cut; for a scheme that has parameters, the
  parameters of the last segment are cut.
\<close>

definition urlparse_path :: "world \<Rightarrow> string \<Rightarrow> error + string" where
  "urlparse_path w url0 =
     (let url1 = filter (\<lambda>c. \<not> unsafe_byte c) (dropWhile c0_or_space url0);
          (scheme, url2) = split_scheme url1;
          (netloc, url3) = split_netloc url2;
          url4 = takeWhile (\<lambda>c. c \<noteq> CHR ''#'') url3;
          url5 = takeWhile (\<lambda>c. c \<noteq> CHR ''?'') url4
      in if \<not> check_netloc w netloc then Inl ValueError
         else if scheme \<in> set uses_params \<and> CHR '';'' \<in> set url5 then Inr (splitparams url5)
         else Inr url5)"

section \<open>The clients\<close>

definition record_call :: "event \<Rightarrow> state \<Rightarrow> state" where
  "record_call e st = st\<lparr>calls := calls st @ [e]\<rparr>"

text \<open>\<^verbatim>\<open>YandexDiskAPI.create_folder\<close> (lines 22-37): 201 and 409 are success.\<close>

definition create_folder :: "world \<Rightarrow> string \<Rightarrow> state \<Rightarrow> bool \<times> state" where
  "create_folder w folder_path st =
     (let code = put_status w (length (calls st));
          st' = record_call (CreateFolder folder_path code) st
      in if code = 201 then (True, st')
         else if code = 409 then (True, st')
         else (False, st'))"

text \<open>\<^verbatim>\<open>YandexDiskAPI.upload_file_from_url\<close> (lines 39-54): only 202 is success.\<close>

definition upload_file_from_url :: "world \<Rightarrow> string \<Rightarrow> string \<Rightarrow> state \<Rightarrow> bool \<times> state" where
  "upload_file_from_url w file_url dpath st =
     (let code = post_status w (length (calls st));
          st' = record_call (UploadFromUrl file_url dpath code) st
      in if code = 202 then (True, st') else (False, st'))"

text \<open>
  \<^verbatim>\<open>DogCeoAPI.get_all_breeds\<close> (lines 63-72), first what it returns on an answer: the parsed
  body on 200 (\<^verbatim>\<open>response.json()\<close> raises on a body that is not JSON), the empty dictionary
  otherwise.
\<close>

definition catalog_result :: "int \<Rightarrow> catalog_payload option \<Rightarrow> error + catalog_payload" where
  "catalog_result code body =
     (if code = 200
      then (case body of None \<Rightarrow> Inl JSONDecodeError | Some d \<Rightarrow> Inr d)
      else Inr [])"

definition get_all_breeds :: "world \<Rightarrow> state \<Rightarrow> (error + catalog_payload) \<times> state" where
  "get_all_breeds w st =
     (let (code, body) = catalog_response w (length (calls st));
          st' = record_call (GetAllBreeds code body) st
      in (catalog_result code body, st'))"

definition image_query_url :: "string \<Rightarrow> string option \<Rightarrow> string" where
  "image_query_url b sub =
     (case sub of
        None \<Rightarrow> ''https://dog.ceo/api/breed/'' @ b @ ''/images/random''
      | Some s \<Rightarrow>
          if s \<noteq> [] then ''https://dog.ceo/api/breed/'' @ b @ ''/'' @ s @ ''/images/random''
          else ''https://dog.ceo/api/breed/'' @ b @ ''/images/random'')"

text \<open>
  \<^verbatim>\<open>DogCeoAPI.get_breed_image\<close> (lines 74-89), first what it returns on an answer (lines
  83-89). On 200 the body is parsed and \<^verbatim>\<open>data['status']\<close> read by subscript: a missing key
  raises \<open>KeyError\<close>, as does a missing \<^verbatim>\<open>data['message']\<close> once the status is
  \<^verbatim>\<open>'success'\<close>. Everything else falls through to \<^verbatim>\<open>return None\<close>.
\<close>

definition image_result :: "int \<Rightarrow> image_payload option \<Rightarrow> error + string option" where
  "image_result code body =
     (if code = 200
      then (case body of
              None \<Rightarrow> Inl JSONDecodeError
            | Some data \<Rightarrow>
                (case map_of data ''status'' of
                   None \<Rightarrow> Inl KeyError
                 | Some s \<Rightarrow>
                     if s = ''success''
                     then (case map_of data ''message'' of
                             None \<Rightarrow> Inl KeyError
                           | Some m \<Rightarrow> Inr (Some m))
                     else Inr None))
      else Inr None)"

definition get_breed_image ::
  "world \<Rightarrow> string \<Rightarrow> string option \<Rightarrow> state \<Rightarrow> (error + string option) \<times> state" where
  "get_breed_image w b sub st =
     (let (code, body) = image_response w (length (calls st));
          st' = record_call (GetBreedImage b sub (image_query_url b sub) code body) st
      in (image_result code body, st'))"

section \<open>The orchestrator\<close>

text \<open>\<^verbatim>\<open>extract_filename_from_url\<close> (lines 110-113).\<close>

definition extract_filename_from_url :: "world \<Rightarrow> string \<Rightarrow> error + string" where
  "extract_filename_from_url w u =
     (case urlparse_path w u of Inl e \<Rightarrow> Inl e | Inr p \<Rightarrow> Inr (basename p))"

text \<open>The file name of lines 158-161: \<^verbatim>\<open>if sub_breed:\<close> is Python's truthiness.\<close>

definition make_filename :: "string \<Rightarrow> string option \<Rightarrow> string \<Rightarrow> string" where
  "make_filename b sub original_filename =
     (case sub of
        None \<Rightarrow> b @ ''_'' @ original_filename
      | Some s \<Rightarrow>
          if s \<noteq> [] then b @ ''_'' @ s @ ''_'' @ original_filename
          else b @ ''_'' @ original_filename)"

text \<open>
  \<^verbatim>\<open>download_single_image\<close> (lines 150-185). \<^verbatim>\<open>urlparse\<close> may raise before the upload is
  requested; once it is requested, one record is appended whatever the answer.
\<close>

definition download_single_image ::
  "world \<Rightarrow> image_candidate \<Rightarrow> string \<Rightarrow> state \<Rightarrow> outcome \<times> state" where
  "download_single_image w img_data folder_path st =
     (case extract_filename_from_url w (img_url img_data) of
        Inl e \<Rightarrow> (Raised e, st)
      | Inr original_filename \<Rightarrow>
          (let fname = make_filename (img_breed img_data) (img_sub_breed img_data) original_filename;
               dpath = folder_path @ ''/'' @ fname;
               (ok, st1) = upload_file_from_url w (img_url img_data) dpath st;
               result = \<lparr>breed = img_breed img_data, sub_breed = img_sub_breed img_data,
                         filename = fname, original_url = img_url img_data, disk_path = dpath,
                         status = (if ok then ''success'' else ''error'')\<rparr>
           in (Done, st1\<lparr>results := results st1 @ [result]\<rparr>)))"

text \<open>The loop of lines 128-135: every sub-breed is resolved, a falsy answer is skipped.\<close>

fun resolve_sub_breeds ::
  "world \<Rightarrow> string \<Rightarrow> string list \<Rightarrow> image_candidate list \<Rightarrow> state
     \<Rightarrow> (error + image_candidate list) \<times> state" where
  "resolve_sub_breeds w b [] images_to_download st = (Inr images_to_download, st)"
| "resolve_sub_breeds w b (s # ss) images_to_download st =
     (case get_breed_image w b (Some s) st of
        (Inl e, st') \<Rightarrow> (Inl e, st')
      | (Inr image_url, st') \<Rightarrow>
          resolve_sub_breeds w b ss
            (case image_url of
               None \<Rightarrow> images_to_download
             | Some u \<Rightarrow>
                 if u \<noteq> []
                 then images_to_download @ [\<lparr>img_url = u, img_breed = b, img_sub_breed = Some s\<rparr>]
                 else images_to_download)
            st')"

text \<open>Lines 138-144: the breed itself when it has no sub-breeds.\<close>

definition resolve_breed ::
  "world \<Rightarrow> string \<Rightarrow> state \<Rightarrow> (error + image_candidate list) \<times> state" where
  "resolve_breed w b st =
     (case get_breed_image w b None st of
        (Inl e, st') \<Rightarrow> (Inl e, st')
      | (Inr image_url, st') \<Rightarrow>
          (case image_url of
             None \<Rightarrow> (Inr [], st')
           | Some u \<Rightarrow>
               if u \<noteq> [] then (Inr [\<lparr>img_url = u, img_breed = b, img_sub_breed = None\<rparr>], st')
               else (Inr [], st')))"

text \<open>The loop of lines 147-148.\<close>

fun upload_images :: "world \<Rightarrow> image_candidate list \<Rightarrow> string \<Rightarrow> state \<Rightarrow> outcome \<times> state" where
  "upload_images w [] folder_path st = (Done, st)"
| "upload_images w (img_data # rest) folder_path st =
     (case download_single_image w img_data folder_path st of
        (Raised e, st') \<Rightarrow> (Raised e, st')
      | (Done, st') \<Rightarrow> upload_images w rest folder_path st')"

text \<open>The breed's folder, line 117.\<close>

definition folder_of :: "string \<Rightarrow> string" where
  "folder_of b = ''/PY-130(API)/dog_images/'' @ b"

text \<open>
  \<^verbatim>\<open>download_breed_images\<close> (lines 115-148). \<^verbatim>\<open>sub_breeds\<close> is a list: the default \<^verbatim>\<open>None\<close>
  is never passed and is as falsy as the empty list.
\<close>

definition download_breed_images ::
  "world \<Rightarrow> string \<Rightarrow> string list \<Rightarrow> state \<Rightarrow> outcome \<times> state" where
  "download_breed_images w b sub_breeds st =
     (let folder_path = folder_of b;
          (created, st1) = create_folder w folder_path st
      in if \<not> created then (Done, st1)
         else (case (if sub_breeds \<noteq> [] then resolve_sub_breeds w b sub_breeds [] st1
                     else resolve_breed w b st1) of
                 (Inl e, st2) \<Rightarrow> (Raised e, st2)
               | (Inr images_to_download, st2) \<Rightarrow>
                   upload_images w images_to_download folder_path st2))"

text \<open>\<^verbatim>\<open>save_results_to_json\<close> (lines 187-192): mode \<^verbatim>\<open>'w'\<close> replaces the file.\<close>

definition save_results_to_json :: "string \<Rightarrow> state \<Rightarrow> state" where
  "save_results_to_json fname st = st\<lparr>files := (files st)(fname \<mapsto> results st)\<rparr>"

text \<open>The loop of lines 226-227 over \<^verbatim>\<open>breeds.items()\<close>.\<close>

fun download_all :: "world \<Rightarrow> (string \<times> string list) list \<Rightarrow> state \<Rightarrow> outcome \<times> state" where
  "download_all w [] st = (Done, st)"
| "download_all w ((b, sub_breeds) # rest) st =
     (case download_breed_images w b sub_breeds st of
        (Raised e, st') \<Rightarrow> (Raised e, st')
      | (Done, st') \<Rightarrow> download_all w rest st')"

text \<open>
  Lines 216-232, on \<^verbatim>\<open>breeds = breeds_data['message']\<close>. The flag returned with the outcome
  says whether control goes on to line 230. A listing that is a string instead of a dictionary
  supports \<^verbatim>\<open>in\<close> (substring) but neither subscript by a string nor \<^verbatim>\<open>.items()\<close>.

  Lines 218-223, one requested breed; \<^verbatim>\<open>breeds[t] if breeds[t] else []\<close> is the list itself.
\<close>

definition download_target :: "world \<Rightarrow> string \<Rightarrow> pyval \<Rightarrow> state \<Rightarrow> outcome \<times> bool \<times> state" where
  "download_target w t breeds st =
     (case breeds of
        PBreeds bs \<Rightarrow>
          (case map_of bs t of
             Some sub_breeds \<Rightarrow>
               (case download_breed_images w t sub_breeds st of
                  (Raised e, st') \<Rightarrow> (Raised e, False, st')
                | (Done, st') \<Rightarrow> (Done, True, st'))
           | None \<Rightarrow> (Done, False, st))
      | PStr s \<Rightarrow>
          if is_substring t s then (Raised TypeError, False, st) else (Done, False, st))"

text \<open>Lines 225-227, every breed.\<close>

definition download_every :: "world \<Rightarrow> pyval \<Rightarrow> state \<Rightarrow> outcome \<times> bool \<times> state" where
  "download_every w breeds st =
     (case breeds of
        PBreeds bs \<Rightarrow>
          (case download_all w bs st of
             (Raised e, st') \<Rightarrow> (Raised e, False, st')
           | (Done, st') \<Rightarrow> (Done, True, st'))
      | PStr s \<Rightarrow> (Raised AttributeError, False, st))"

text \<open>Lines 217-232: \<^verbatim>\<open>if target_breed:\<close> is truthiness; the manifest is saved at the end.\<close>

definition select_and_download :: "world \<Rightarrow> string option \<Rightarrow> pyval \<Rightarrow> state \<Rightarrow> outcome \<times> state" where
  "select_and_download w target_breed breeds st =
     (case (case target_breed of
              None \<Rightarrow> download_every w breeds st
            | Some t \<Rightarrow> if t \<noteq> [] then download_target w t breeds st
                       else download_every w breeds st) of
        (out, finalize, st') \<Rightarrow>
          if finalize then (Done, save_results_to_json ''download_results.json'' st')
          else (out, st'))"

text \<open>\<^verbatim>\<open>DogImageDownloader.run\<close> (lines 194-232).\<close>

definition run :: "world \<Rightarrow> string option \<Rightarrow> state \<Rightarrow> outcome \<times> state" where
  "run w target_breed st =
     (let (ok1, st1) = create_folder w ''/PY-130(API)'' st
      in if \<not> ok1 then (Done, st1)
         else (let (ok2, st2) = create_folder w ''/PY-130(API)/dog_images'' st1
               in if \<not> ok2 then (Done, st2)
                  else (case get_all_breeds w st2 of
                          (Inl e, st3) \<Rightarrow> (Raised e, st3)
                        | (Inr breeds_data, st3) \<Rightarrow>
                            if breeds_data = [] \<or> map_of breeds_data ''message'' = None
                            then (Done, st3)
                            else (case map_of breeds_data ''message'' of
                                    None \<Rightarrow> (Raised KeyError, st3)
                                  | Some breeds \<Rightarrow>
                                      select_and_download w target_breed breeds st3))))"

section \<open>Reading the trace\<close>

text \<open>The answers that count as success: lines 29-34, line 49, and a truthy result of lines 83-86.\<close>

definition folder_ok :: "int \<Rightarrow> bool" where
  "folder_ok code = (code = 201 \<or> code = 409)"

definition resolves :: "int \<Rightarrow> image_payload option \<Rightarrow> bool" where
  "resolves code body =
     (case image_result code body of Inr (Some u) \<Rightarrow> u \<noteq> [] | _ \<Rightarrow> False)"

text \<open>The candidates that a sequence of image queries yields (lines 130-135 and 139-144).\<close>

fun candidates_of :: "event list \<Rightarrow> image_candidate list" where
  "candidates_of [] = []"
| "candidates_of (GetBreedImage b sub q code body # es) =
     (case image_result code body of
        Inr (Some u) \<Rightarrow>
          if u \<noteq> [] then \<lparr>img_url = u, img_breed = b, img_sub_breed = sub\<rparr> # candidates_of es
          else candidates_of es
      | _ \<Rightarrow> candidates_of es)"
| "candidates_of (e # es) = candidates_of es"

text \<open>What each upload request of a trace asked for, and the status its answer gives.\<close>

fun upload_outcomes :: "event list \<Rightarrow> (string \<times> string \<times> string) list" where
  "upload_outcomes [] = []"
| "upload_outcomes (UploadFromUrl u p code # es) =
     (u, p, if code = 202 then ''success'' else ''error'') # upload_outcomes es"
| "upload_outcomes (e # es) = upload_outcomes es"

definition record_outcome :: "transfer_record \<Rightarrow> string \<times> string \<times> string" where
  "record_outcome r = (original_url r, disk_path r, status r)"

text \<open>The sub-breed that an image query asked for.\<close>

fun event_sub :: "event \<Rightarrow> string option" where
  "event_sub (GetBreedImage b sub q code body) = sub"
| "event_sub e = None"

definition is_upload :: "event \<Rightarrow> bool" where
  "is_upload e = (case e of UploadFromUrl u p code \<Rightarrow> True | _ \<Rightarrow> False)"

definition is_image_query :: "string \<Rightarrow> event \<Rightarrow> bool" where
  "is_image_query b e = (case e of GetBreedImage b' sub q code body \<Rightarrow> b' = b | _ \<Rightarrow> False)"

text \<open>The requests that the processing of breed \<open>b\<close> can make.\<close>

definition own_event :: "string \<Rightarrow> event \<Rightarrow> bool" where
  "own_event b e =
     (case e of
        CreateFolder p code \<Rightarrow> p = folder_of b
      | UploadFromUrl u p code \<Rightarrow> True
      | GetAllBreeds code body \<Rightarrow> False
      | GetBreedImage b' sub q code body \<Rightarrow> b' = b)"

text \<open>A record made from a candidate (lines 167-183).\<close>

definition made_from :: "image_candidate \<Rightarrow> transfer_record \<Rightarrow> bool" where
  "made_from c r =
     (breed r = img_breed c \<and> sub_breed r = img_sub_breed c \<and> original_url r = img_url c)"

text \<open>What an operation added to the trace and to the results, between two states.\<close>

definition new_calls :: "state \<Rightarrow> state \<Rightarrow> event list" where
  "new_calls st st' = drop (length (calls st)) (calls st')"

definition new_results :: "state \<Rightarrow> state \<Rightarrow> transfer_record list" where
  "new_results st st' = drop (length (results st)) (results st')"

text \<open>
  The breeds that lines 217-227 select from a listing: the requested breed when it is in the
  listing (\<open>None\<close> when it is not: the run ends at line 223), every breed when no breed is
  requested.
\<close>

definition selected :: "(string \<times> string list) list \<Rightarrow> string option \<Rightarrow> (string \<times> string list) list option" where
  "selected bs target_breed =
     (case target_breed of
        None \<Rightarrow> Some bs
      | Some t \<Rightarrow>
          if t \<noteq> [] then (case map_of bs t of None \<Rightarrow> None | Some sub_breeds \<Rightarrow> Some [(t, sub_breeds)])
          else Some bs)"

text \<open>
  The state of a fresh downloader once lines 199-209 have run: both folders were requested
  and the catalog was fetched. The requests of a run are numbered from 0.
\<close>

definition started :: "world \<Rightarrow> (string \<rightharpoonup> transfer_record list) \<Rightarrow> state" where
  "started w fs =
     \<lparr>results = [],
      calls = [CreateFolder ''/PY-130(API)'' (put_status w 0),
               CreateFolder ''/PY-130(API)/dog_images'' (put_status w 1),
               GetAllBreeds (fst (catalog_response w 2)) (snd (catalog_response w 2))],
      files = fs\<rparr>"

section \<open>A sample world\<close>

text \<open>
  A catalog with the breed \<open>akita\<close> (no sub-breeds) and the breed \<open>husky\<close> (two sub-breeds).
  Every folder is created, every image query answers with the same picture, and only the
  request number 5 of a run (the upload for \<open>akita\<close>) is accepted.
\<close>

definition sample_catalog :: catalog_payload where
  "sample_catalog =
     [(''message'', PBreeds [(''akita'', []), (''husky'', [''siberian'', ''alaskan''])]),
      (''status'', PStr ''success'')]"

definition sample_image :: image_payload where
  "sample_image =
     [(''message'', ''https://images.dog.ceo/breeds/husky/n02110063_8514.jpg''),
      (''status'', ''success'')]"

definition sample_world :: world where
  "sample_world =
     \<lparr>put_status = (\<lambda>n. 201),
      post_status = (\<lambda>n. if n = 5 then 202 else 500),
      catalog_response = (\<lambda>n. (200, Some sample_catalog)),
      image_response = (\<lambda>n. (200, Some sample_image)),
      netloc_valid = (\<lambda>h. True)\<rparr>"

section \<open>Effects of the operations\<close>

lemma record_call_simps [simp]:
  "calls (record_call e st) = calls st @ [e]"
  "results (record_call e st) = results st"
  "files (record_call e st) = files st"
  by (simp_all add: record_call_def)

lemma create_folder_eq:
  "create_folder w p st =
     (folder_ok (put_status w (length (calls st))),
      record_call (CreateFolder p (put_status w (length (calls st)))) st)"
  by (simp add: create_folder_def Let_def folder_ok_def)

lemma upload_eq:
  "upload_file_from_url w u p st =
     (post_status w (length (calls st)) = 202,
      record_call (UploadFromUrl u p (post_status w (length (calls st)))) st)"
  by (simp add: upload_file_from_url_def Let_def)

lemma get_breed_image_eq:
  "get_breed_image w b sub st =
     (image_result (fst (image_response w (length (calls st)))) (snd (image_response w (length (calls st)))),
      record_call (GetBreedImage b sub (image_query_url b sub)
         (fst (image_response w (length (calls st)))) (snd (image_response w (length (calls st))))) st)"
  by (simp add: get_breed_image_def Let_def split: prod.splits)

lemma download_single_image_raised:
  "extract_filename_from_url w (img_url c) = Inl e \<Longrightarrow>
   download_single_image w c folder st = (Raised e, st)"
  by (simp add: download_single_image_def)

lemma download_single_image_done:
  "extract_filename_from_url w (img_url c) = Inr fn \<Longrightarrow>
   download_single_image w c folder st =
     (Done, st\<lparr>results := results st @
                    [\<lparr>breed = img_breed c, sub_breed = img_sub_breed c,
                      filename = make_filename (img_breed c) (img_sub_breed c) fn,
                      original_url = img_url c,
                      disk_path = folder @ ''/'' @ make_filename (img_breed c) (img_sub_breed c) fn,
                      status = (if post_status w (length (calls st)) = 202 then ''success'' else ''error'')\<rparr>],
                  calls := calls st @
                    [UploadFromUrl (img_url c)
                       (folder @ ''/'' @ make_filename (img_breed c) (img_sub_breed c) fn)
                       (post_status w (length (calls st)))]\<rparr>)"
  by (simp add: download_single_image_def upload_eq Let_def record_call_def)

lemma upload_outcomes_append [simp]:
  "upload_outcomes (xs @ ys) = upload_outcomes xs @ upload_outcomes ys"
  by (induction xs rule: upload_outcomes.induct) simp_all

lemma candidates_of_append [simp]:
  "candidates_of (xs @ ys) = candidates_of xs @ candidates_of ys"
  by (induction xs rule: candidates_of.induct) (simp_all split: sum.splits option.splits)

lemma upload_images_effect:
  "upload_images w imgs folder st = (out, st') \<Longrightarrow>
   \<exists>us rs. calls st' = calls st @ us \<and> results st' = results st @ rs \<and> files st' = files st
     \<and> (\<forall>e \<in> set us. is_upload e)
     \<and> map record_outcome rs = upload_outcomes us
     \<and> (\<forall>r \<in> set rs. disk_path r = folder @ ''/'' @ filename r)
     \<and> list_all2 made_from (take (length rs) imgs) rs
     \<and> (out = Done \<longrightarrow> length rs = length imgs)"
proof (induction imgs arbitrary: st)
  case Nil
  then show ?case by simp
next
  case (Cons c rest)
  show ?case
  proof (cases "extract_filename_from_url w (img_url c)")
    case (Inl e)
    with Cons.prems show ?thesis
      by (auto simp add: download_single_image_raised)
  next
    case (Inr fn)
    let ?r = "\<lparr>breed = img_breed c, sub_breed = img_sub_breed c,
                filename = make_filename (img_breed c) (img_sub_breed c) fn,
                original_url = img_url c,
                disk_path = folder @ ''/'' @ make_filename (img_breed c) (img_sub_breed c) fn,
                status = (if post_status w (length (calls st)) = 202 then ''success'' else ''error'')\<rparr>"
    let ?e = "UploadFromUrl (img_url c)
                (folder @ ''/'' @ make_filename (img_breed c) (img_sub_breed c) fn)
                (post_status w (length (calls st)))"
    let ?st1 = "st\<lparr>results := results st @ [?r], calls := calls st @ [?e]\<rparr>"
    from Cons.prems Inr have rest: "upload_images w rest folder ?st1 = (out, st')"
      by (simp add: download_single_image_done)
    from Cons.IH [OF rest] obtain us rs where
      h: "calls st' = calls ?st1 @ us" "results st' = results ?st1 @ rs" "files st' = files ?st1"
         "\<forall>e \<in> set us. is_upload e" "map record_outcome rs = upload_outcomes us"
         "\<forall>r \<in> set rs. disk_path r = folder @ ''/'' @ filename r"
         "list_all2 made_from (take (length rs) rest) rs"
         "out = Done \<longrightarrow> length rs = length rest"
      by blast
    have "calls st' = calls st @ (?e # us)" using h(1) by simp
    moreover have "results st' = results st @ (?r # rs)" using h(2) by simp
    moreover have "files st' = files st" using h(3) by simp
    moreover have "\<forall>e \<in> set (?e # us). is_upload e" using h(4) by (simp add: is_upload_def)
    moreover have "map record_outcome (?r # rs) = upload_outcomes (?e # us)"
      using h(5) by (simp add: record_outcome_def)
    moreover have "\<forall>r \<in> set (?r # rs). disk_path r = folder @ ''/'' @ filename r"
      using h(6) by simp
    moreover have "list_all2 made_from (take (length (?r # rs)) (c # rest)) (?r # rs)"
      using h(7) by (simp add: made_from_def)
    moreover have "out = Done \<longrightarrow> length (?r # rs) = length (c # rest)"
      using h(8) by simp
    ultimately show ?thesis by blast
  qed
qed

lemma resolve_sub_breeds_effect:
  "resolve_sub_breeds w b ss acc st = (res, st') \<Longrightarrow>
   \<exists>gs. calls st' = calls st @ gs \<and> results st' = results st \<and> files st' = files st
     \<and> (\<forall>e \<in> set gs. is_image_query b e)
     \<and> (\<forall>imgs. res = Inr imgs \<longrightarrow> imgs = acc @ candidates_of gs \<and> map event_sub gs = map Some ss)"
proof (induction ss arbitrary: acc st)
  case Nil
  then show ?case by auto
next
  case (Cons s ss)
  let ?code = "fst (image_response w (length (calls st)))"
  let ?body = "snd (image_response w (length (calls st)))"
  let ?e = "GetBreedImage b (Some s) (image_query_url b (Some s)) ?code ?body"
  let ?st1 = "record_call ?e st"
  show ?case
  proof (cases "image_result ?code ?body")
    case (Inl err)
    with Cons.prems have "res = Inl err" "st' = ?st1"
      by (auto simp add: get_breed_image_eq)
    then have "calls st' = calls st @ [?e]" "results st' = results st" "files st' = files st"
      "\<forall>e \<in> set [?e]. is_image_query b e" "\<forall>imgs. res \<noteq> Inr imgs"
      by (simp_all add: is_image_query_def)
    then show ?thesis by blast
  next
    case (Inr image_url)
    let ?acc = "(case image_url of None \<Rightarrow> acc
                 | Some u \<Rightarrow> if u \<noteq> [] then acc @ [\<lparr>img_url = u, img_breed = b, img_sub_breed = Some s\<rparr>]
                            else acc)"
    from Cons.prems Inr have rest: "resolve_sub_breeds w b ss ?acc ?st1 = (res, st')"
      by (simp add: get_breed_image_eq)
    from Cons.IH [OF rest] obtain gs where
      h: "calls st' = calls ?st1 @ gs" "results st' = results ?st1" "files st' = files ?st1"
         "\<forall>e \<in> set gs. is_image_query b e"
         "\<forall>imgs. res = Inr imgs \<longrightarrow> imgs = ?acc @ candidates_of gs \<and> map event_sub gs = map Some ss"
      by blast
    have acc: "?acc = acc @ candidates_of [?e]"
      using Inr by (simp split: option.splits)
    have "calls st' = calls st @ (?e # gs)" using h(1) by simp
    moreover have "results st' = results st" "files st' = files st" using h(2,3) by simp_all
    moreover have "\<forall>e \<in> set (?e # gs). is_image_query b e"
      using h(4) by (simp add: is_image_query_def)
    moreover have "\<forall>imgs. res = Inr imgs \<longrightarrow>
        imgs = acc @ candidates_of (?e # gs) \<and> map event_sub (?e # gs) = map Some (s # ss)"
    proof (intro allI impI)
      fix imgs assume "res = Inr imgs"
      with h(5) have "imgs = ?acc @ candidates_of gs" "map event_sub gs = map Some ss" by simp_all
      moreover have "candidates_of (?e # gs) = candidates_of [?e] @ candidates_of gs"
        using candidates_of_append [of "[?e]" gs] by simp
      ultimately show "imgs = acc @ candidates_of (?e # gs) \<and> map event_sub (?e # gs) = map Some (s # ss)"
        using acc by simp
    qed
    ultimately show ?thesis by blast
  qed
qed

lemma resolve_breed_effect:
  "resolve_breed w b st = (res, st') \<Longrightarrow>
   \<exists>gs. calls st' = calls st @ gs \<and> results st' = results st \<and> files st' = files st
     \<and> (\<forall>e \<in> set gs. is_image_query b e)
     \<and> (\<forall>imgs. res = Inr imgs \<longrightarrow> imgs = candidates_of gs \<and> map event_sub gs = [None])"
proof -
  assume a: "resolve_breed w b st = (res, st')"
  let ?code = "fst (image_response w (length (calls st)))"
  let ?body = "snd (image_response w (length (calls st)))"
  let ?e = "GetBreedImage b None (image_query_url b None) ?code ?body"
  have st': "st' = record_call ?e st"
    using a by (auto simp add: resolve_breed_def get_breed_image_eq split: sum.splits option.splits if_splits)
  have res: "\<forall>imgs. res = Inr imgs \<longrightarrow> imgs = candidates_of [?e]"
    using a by (auto simp add: resolve_breed_def get_breed_image_eq split: sum.splits option.splits if_splits)
  have "calls st' = calls st @ [?e]" "results st' = results st" "files st' = files st"
    "\<forall>e \<in> set [?e]. is_image_query b e"
    "\<forall>imgs. res = Inr imgs \<longrightarrow> imgs = candidates_of [?e] \<and> map event_sub [?e] = [None]"
    using st' res by (simp_all add: is_image_query_def)
  then show ?thesis by blast
qed

lemma download_breed_images_effect:
  "download_breed_images w b subs st = (out, st') \<Longrightarrow>
   \<exists>code gs us rs.
       calls st' = calls st @ CreateFolder (folder_of b) code # gs @ us
     \<and> results st' = results st @ rs \<and> files st' = files st
     \<and> code = put_status w (length (calls st))
     \<and> (\<forall>e \<in> set gs. is_image_query b e) \<and> (\<forall>e \<in> set us. is_upload e)
     \<and> (\<not> folder_ok code \<longrightarrow> gs = [] \<and> us = [] \<and> rs = [] \<and> out = Done)
     \<and> map record_outcome rs = upload_outcomes us
     \<and> (\<forall>r \<in> set rs. disk_path r = folder_of b @ ''/'' @ filename r)
     \<and> list_all2 made_from (take (length rs) (candidates_of gs)) rs
     \<and> (out = Done \<and> folder_ok code \<longrightarrow>
          length rs = length (candidates_of gs) \<and> map event_sub gs = (if subs = [] then [None] else map Some subs))"
proof -
  assume a: "download_breed_images w b subs st = (out, st')"
  let ?code = "put_status w (length (calls st))"
  let ?e = "CreateFolder (folder_of b) ?code"
  let ?st1 = "record_call ?e st"
  show ?thesis
  proof (cases "folder_ok ?code")
    case False
    with a have "out = Done" "st' = ?st1"
      by (simp_all add: download_breed_images_def create_folder_eq Let_def)
    then have "calls st' = calls st @ ?e # [] @ []" "results st' = results st @ []" "files st' = files st"
      by simp_all
    with False \<open>out = Done\<close> show ?thesis
      by (intro exI [of _ ?code] exI [of _ "[]"]) simp
  next
    case True
    obtain res st2 where r: "(if subs \<noteq> [] then resolve_sub_breeds w b subs [] ?st1
                               else resolve_breed w b ?st1) = (res, st2)"
      by (cases "(if subs \<noteq> [] then resolve_sub_breeds w b subs [] ?st1 else resolve_breed w b ?st1)") blast
    have "\<exists>gs. calls st2 = calls ?st1 @ gs \<and> results st2 = results ?st1 \<and> files st2 = files ?st1
        \<and> (\<forall>e \<in> set gs. is_image_query b e)
        \<and> (\<forall>imgs. res = Inr imgs \<longrightarrow> imgs = candidates_of gs
              \<and> map event_sub gs = (if subs = [] then [None] else map Some subs))"
    proof (cases "subs = []")
      case True
      with r have "resolve_breed w b ?st1 = (res, st2)" by simp
      from resolve_breed_effect [OF this] True show ?thesis by auto
    next
      case False
      with r have "resolve_sub_breeds w b subs [] ?st1 = (res, st2)" by simp
      from resolve_sub_breeds_effect [OF this] False show ?thesis by auto
    qed
    then obtain gs where
      g: "calls st2 = calls ?st1 @ gs" "results st2 = results ?st1" "files st2 = files ?st1"
         "\<forall>e \<in> set gs. is_image_query b e"
         "\<forall>imgs. res = Inr imgs \<longrightarrow> imgs = candidates_of gs
              \<and> map event_sub gs = (if subs = [] then [None] else map Some subs)"
      by blast
    show ?thesis
    proof (cases res)
      case (Inl err)
      with a True r have "out = Raised err" "st' = st2"
        by (simp_all add: download_breed_images_def create_folder_eq Let_def)
      then have "calls st' = calls st @ ?e # gs @ []" "results st' = results st @ []" "files st' = files st"
        "out \<noteq> Done"
        using g(1,2,3) by simp_all
      with True g(4) show ?thesis
        by (intro exI [of _ ?code] exI [of _ gs] exI [of _ "[]"]) simp
    next
      case (Inr imgs)
      with a True r have u: "upload_images w imgs (folder_of b) st2 = (out, st')"
        by (simp add: download_breed_images_def create_folder_eq Let_def)
      from Inr g(5) have imgs: "imgs = candidates_of gs"
        "map event_sub gs = (if subs = [] then [None] else map Some subs)" by simp_all
      from upload_images_effect [OF u] obtain us rs where
        h: "calls st' = calls st2 @ us" "results st' = results st2 @ rs" "files st' = files st2"
           "\<forall>e \<in> set us. is_upload e" "map record_outcome rs = upload_outcomes us"
           "\<forall>r \<in> set rs. disk_path r = folder_of b @ ''/'' @ filename r"
           "list_all2 made_from (take (length rs) imgs) rs"
           "out = Done \<longrightarrow> length rs = length imgs"
        by blast
      have "calls st' = calls st @ ?e # gs @ us" using h(1) g(1) by simp
      moreover have "results st' = results st @ rs" using h(2) g(2) by simp
      moreover have "files st' = files st" using h(3) g(3) by simp
      moreover have "list_all2 made_from (take (length rs) (candidates_of gs)) rs"
        using h(7) imgs(1) by simp
      moreover have "out = Done \<and> folder_ok ?code \<longrightarrow>
          length rs = length (candidates_of gs) \<and> map event_sub gs = (if subs = [] then [None] else map Some subs)"
        using h(8) imgs by simp
      ultimately show ?thesis
        using True g(4) h(4,5,6)
        by (intro exI [of _ ?code] exI [of _ gs] exI [of _ us] exI [of _ rs]) simp
    qed
  qed
qed

lemma upload_outcomes_queries:
  "\<forall>e \<in> set gs. is_image_query b e \<Longrightarrow> upload_outcomes gs = []"
  by (induction gs rule: upload_outcomes.induct) (simp_all add: is_image_query_def)

lemma candidates_of_breed:
  "\<forall>e \<in> set gs. is_image_query b e \<Longrightarrow> c \<in> set (candidates_of gs) \<Longrightarrow> img_breed c = b"
  by (induction gs rule: candidates_of.induct)
     (auto simp add: is_image_query_def split: sum.splits option.splits if_splits)

lemma candidates_of_all:
  "\<forall>e \<in> set gs. is_image_query b e \<Longrightarrow>
   \<forall>s q code body. GetBreedImage b s q code body \<in> set gs \<longrightarrow> resolves code body \<Longrightarrow>
   length (candidates_of gs) = length gs"
proof (induction gs)
  case Nil
  then show ?case by simp
next
  case (Cons e es)
  from Cons.prems(1) obtain s q code body where e: "e = GetBreedImage b s q code body"
    by (cases e) (simp_all add: is_image_query_def)
  with Cons.prems(2) have "resolves code body" by auto
  then obtain u where u: "image_result code body = Inr (Some u)" "u \<noteq> []"
    by (auto simp add: resolves_def split: sum.splits option.splits)
  have "length (candidates_of es) = length es"
    using Cons.IH Cons.prems by auto
  with u e show ?case by simp
qed

lemma candidates_of_subs:
  "\<forall>e \<in> set gs. is_image_query b e \<Longrightarrow>
   \<forall>s q code body. GetBreedImage b s q code body \<in> set gs \<longrightarrow> resolves code body \<Longrightarrow>
   map img_sub_breed (candidates_of gs) = map event_sub gs"
proof (induction gs)
  case Nil
  then show ?case by simp
next
  case (Cons e es)
  from Cons.prems(1) obtain s q code body where e: "e = GetBreedImage b s q code body"
    by (cases e) (simp_all add: is_image_query_def)
  with Cons.prems(2) have "resolves code body" by auto
  then obtain u where u: "image_result code body = Inr (Some u)" "u \<noteq> []"
    by (auto simp add: resolves_def split: sum.splits option.splits)
  have "map img_sub_breed (candidates_of es) = map event_sub es"
    using Cons.IH Cons.prems by auto
  with u e show ?case by simp
qed

lemma made_from_subs:
  "list_all2 made_from cs rs \<Longrightarrow> map sub_breed rs = map img_sub_breed cs"
  by (induction cs rs rule: list_all2_induct) (auto simp add: made_from_def)

lemma candidates_of_mem:
  "GetBreedImage b s q code body \<in> set gs \<Longrightarrow> image_result code body = Inr (Some m) \<Longrightarrow> m \<noteq> [] \<Longrightarrow>
   \<lparr>img_url = m, img_breed = b, img_sub_breed = s\<rparr> \<in> set (candidates_of gs)"
  by (induction gs rule: candidates_of.induct) (auto split: sum.splits option.splits)

lemma made_from_breed:
  "list_all2 made_from cs rs \<Longrightarrow> \<forall>c \<in> set cs. img_breed c = b \<Longrightarrow> r \<in> set rs \<Longrightarrow> breed r = b"
  by (induction cs rs rule: list_all2_induct) (auto simp add: made_from_def)

lemma made_from_mem:
  "list_all2 made_from cs rs \<Longrightarrow> c \<in> set cs \<Longrightarrow> \<exists>r \<in> set rs. made_from c r"
  by (induction cs rs rule: list_all2_induct) auto

lemma upload_outcomes_uploads:
  "\<forall>e \<in> set us. is_upload e \<Longrightarrow> GetBreedImage b s q code body \<notin> set us \<and> CreateFolder p c \<notin> set us"
  by (auto simp add: is_upload_def)

lemma download_breed_images_summary:
  assumes "download_breed_images w b subs st = (out, st')"
  shows "\<exists>cs rs. calls st' = calls st @ cs \<and> results st' = results st @ rs \<and> files st' = files st
     \<and> (\<forall>e \<in> set cs. own_event b e)
     \<and> (\<forall>r \<in> set rs. breed r = b \<and> disk_path r = folder_of b @ ''/'' @ filename r)
     \<and> map record_outcome rs = upload_outcomes cs
     \<and> CreateFolder (folder_of b) (put_status w (length (calls st))) \<in> set cs
     \<and> (\<forall>p c. CreateFolder p c \<in> set cs \<longrightarrow> c = put_status w (length (calls st)))
     \<and> (\<not> folder_ok (put_status w (length (calls st))) \<longrightarrow> rs = [] \<and> out = Done)
     \<and> (out = Done \<and> folder_ok (put_status w (length (calls st)))
          \<and> (\<forall>s q code body. GetBreedImage b s q code body \<in> set cs \<longrightarrow> resolves code body)
          \<longrightarrow> map sub_breed rs = (if subs = [] then [None] else map Some subs))
     \<and> (out = Done \<longrightarrow>
          (\<forall>s q code body m. GetBreedImage b s q code body \<in> set cs
              \<and> image_result code body = Inr (Some m) \<and> m \<noteq> []
            \<longrightarrow> (\<exists>r \<in> set rs. breed r = b \<and> sub_breed r = s \<and> original_url r = m)))"
proof -
  let ?code = "put_status w (length (calls st))"
  from download_breed_images_effect [OF assms] obtain gs us rs where
    h: "calls st' = calls st @ CreateFolder (folder_of b) ?code # gs @ us"
       "results st' = results st @ rs" "files st' = files st"
       "\<forall>e \<in> set gs. is_image_query b e" "\<forall>e \<in> set us. is_upload e"
       "\<not> folder_ok ?code \<longrightarrow> gs = [] \<and> us = [] \<and> rs = [] \<and> out = Done"
       "map record_outcome rs = upload_outcomes us"
       "\<forall>r \<in> set rs. disk_path r = folder_of b @ ''/'' @ filename r"
       "list_all2 made_from (take (length rs) (candidates_of gs)) rs"
       "out = Done \<and> folder_ok ?code \<longrightarrow>
          length rs = length (candidates_of gs) \<and> map event_sub gs = (if subs = [] then [None] else map Some subs)"
    by blast
  let ?cs = "CreateFolder (folder_of b) ?code # gs @ us"
  have c1: "calls st' = calls st @ ?cs" by (rule h(1))
  have c4: "\<forall>e \<in> set ?cs. own_event b e"
    using h(4,5) by (auto simp add: own_event_def is_image_query_def is_upload_def split: event.splits)
  have cands: "\<forall>c \<in> set (take (length rs) (candidates_of gs)). img_breed c = b"
    using candidates_of_breed [OF h(4)] by (auto dest: in_set_takeD)
  have c5: "\<forall>r \<in> set rs. breed r = b \<and> disk_path r = folder_of b @ ''/'' @ filename r"
    using made_from_breed [OF h(9) cands] h(8) by blast
  have c6: "map record_outcome rs = upload_outcomes ?cs"
    using h(7) upload_outcomes_queries [OF h(4)] by simp
  have c7: "CreateFolder (folder_of b) ?code \<in> set ?cs" by simp
  have c8: "\<forall>p c. CreateFolder p c \<in> set ?cs \<longrightarrow> c = ?code"
    using h(4,5) by (auto simp add: is_image_query_def is_upload_def)
  have c9: "\<not> folder_ok ?code \<longrightarrow> rs = [] \<and> out = Done" using h(6) by simp
  have gs_in: "\<And>s q code body. GetBreedImage b s q code body \<in> set ?cs \<Longrightarrow>
      GetBreedImage b s q code body \<in> set gs"
    using h(5) by (auto simp add: is_upload_def)
  have c10: "out = Done \<and> folder_ok ?code
          \<and> (\<forall>s q code body. GetBreedImage b s q code body \<in> set ?cs \<longrightarrow> resolves code body)
          \<longrightarrow> map sub_breed rs = (if subs = [] then [None] else map Some subs)"
  proof (intro impI, elim conjE)
    assume d: "out = Done" and ok: "folder_ok ?code"
      and r: "\<forall>s q code body. GetBreedImage b s q code body \<in> set ?cs \<longrightarrow> resolves code body"
    from r have "\<forall>s q code body. GetBreedImage b s q code body \<in> set gs \<longrightarrow> resolves code body"
      by simp
    note all = candidates_of_all [OF h(4) this] candidates_of_subs [OF h(4) this]
    from h(10) d ok have "length rs = length (candidates_of gs)"
      and ev: "map event_sub gs = (if subs = [] then [None] else map Some subs)" by simp_all
    with h(9) have "list_all2 made_from (candidates_of gs) rs" by simp
    from made_from_subs [OF this] all(2) ev
    show "map sub_breed rs = (if subs = [] then [None] else map Some subs)" by simp
  qed
  have c11: "out = Done \<longrightarrow>
          (\<forall>s q code body m. GetBreedImage b s q code body \<in> set ?cs
              \<and> image_result code body = Inr (Some m) \<and> m \<noteq> []
            \<longrightarrow> (\<exists>r \<in> set rs. breed r = b \<and> sub_breed r = s \<and> original_url r = m))"
  proof (intro impI allI, elim conjE)
    fix s q code body m
    assume d: "out = Done" and e: "GetBreedImage b s q code body \<in> set ?cs"
      and m: "image_result code body = Inr (Some m)" "m \<noteq> []"
    from gs_in [OF e] have eg: "GetBreedImage b s q code body \<in> set gs" .
    then have "gs \<noteq> []" by auto
    with h(6) have ok: "folder_ok ?code" by auto
    with h(10) d have "length rs = length (candidates_of gs)" by simp
    with h(9) have l: "list_all2 made_from (candidates_of gs) rs" by simp
    from made_from_mem [OF l candidates_of_mem [OF eg m]]
    show "\<exists>r \<in> set rs. breed r = b \<and> sub_breed r = s \<and> original_url r = m"
      by (auto simp add: made_from_def)
  qed
  show ?thesis
    apply (rule exI [of _ ?cs])
    apply (rule exI [of _ rs])
    apply (intro conjI)
              apply (rule c1)
             apply (rule h(2))
            apply (rule h(3))
           apply (rule c4)
          apply (rule c5)
         apply (rule c6)
        apply (rule c7)
       apply (rule c8)
      apply (rule c9)
     apply (rule c10)
    apply (rule c11)
    done
qed

lemma folder_of_inj: "folder_of b = folder_of b' \<Longrightarrow> b = b'"
  by (simp add: folder_of_def)

lemma own_event_folder: "own_event b' (CreateFolder (folder_of b) c) \<Longrightarrow> b = b'"
  by (simp add: own_event_def folder_of_def)

lemma own_event_query: "own_event b' (GetBreedImage b s q code body) \<Longrightarrow> b = b'"
  by (simp add: own_event_def)

lemma new_calls_eq: "calls st' = calls st @ cs \<Longrightarrow> new_calls st st' = cs"
  by (simp add: new_calls_def)

lemma new_results_eq: "results st' = results st @ rs \<Longrightarrow> new_results st st' = rs"
  by (simp add: new_results_def)

lemma new_calls_trans:
  assumes "calls st1 = calls st @ new_calls st st1" and "calls st' = calls st1 @ new_calls st1 st'"
  shows "new_calls st st' = new_calls st st1 @ new_calls st1 st'"
    and "calls st' = calls st @ new_calls st st'"
proof -
  define X where "X = new_calls st st1"
  define Y where "Y = new_calls st1 st'"
  have a: "calls st1 = calls st @ X" unfolding X_def by (rule assms(1))
  have b: "calls st' = calls st1 @ Y" unfolding Y_def by (rule assms(2))
  have c: "calls st' = calls st @ (X @ Y)" unfolding b a by simp
  from new_calls_eq [OF c] show "new_calls st st' = new_calls st st1 @ new_calls st1 st'"
    unfolding X_def Y_def .
  then show "calls st' = calls st @ new_calls st st'" using c unfolding X_def Y_def by simp
qed

lemma new_results_trans:
  assumes "results st1 = results st @ new_results st st1"
    and "results st' = results st1 @ new_results st1 st'"
  shows "new_results st st' = new_results st st1 @ new_results st1 st'"
    and "results st' = results st @ new_results st st'"
proof -
  define X where "X = new_results st st1"
  define Y where "Y = new_results st1 st'"
  have a: "results st1 = results st @ X" unfolding X_def by (rule assms(1))
  have b: "results st' = results st1 @ Y" unfolding Y_def by (rule assms(2))
  have c: "results st' = results st @ (X @ Y)" unfolding b a by simp
  from new_results_eq [OF c] show "new_results st st' = new_results st st1 @ new_results st1 st'"
    unfolding X_def Y_def .
  then show "results st' = results st @ new_results st st'" using c unfolding X_def Y_def by simp
qed

lemma download_all_step:
  "download_all w ((b, subs) # rest) st = (out, st') \<Longrightarrow>
   (\<exists>e. download_breed_images w b subs st = (Raised e, st') \<and> out = Raised e)
   \<or> (\<exists>st1. download_breed_images w b subs st = (Done, st1) \<and> download_all w rest st1 = (out, st'))"
  by (cases "download_breed_images w b subs st") (auto split: outcome.splits)

lemma download_breed_images_delta:
  assumes "download_breed_images w b subs st = (out, st')"
  shows "calls st' = calls st @ new_calls st st'"
    and "results st' = results st @ new_results st st'"
    and "files st' = files st"
    and "\<forall>e \<in> set (new_calls st st'). own_event b e"
    and "\<forall>r \<in> set (new_results st st'). breed r = b \<and> disk_path r = folder_of b @ ''/'' @ filename r"
    and "map record_outcome (new_results st st') = upload_outcomes (new_calls st st')"
    and "CreateFolder (folder_of b) (put_status w (length (calls st))) \<in> set (new_calls st st')"
    and "\<forall>p c. CreateFolder p c \<in> set (new_calls st st') \<longrightarrow> c = put_status w (length (calls st))"
    and "\<not> folder_ok (put_status w (length (calls st))) \<longrightarrow> new_results st st' = [] \<and> out = Done"
    and "out = Done \<and> folder_ok (put_status w (length (calls st)))
          \<and> (\<forall>s q code body. GetBreedImage b s q code body \<in> set (new_calls st st') \<longrightarrow> resolves code body)
          \<longrightarrow> map sub_breed (new_results st st') = (if subs = [] then [None] else map Some subs)"
    and "out = Done \<longrightarrow>
          (\<forall>s q code body m. GetBreedImage b s q code body \<in> set (new_calls st st')
              \<and> image_result code body = Inr (Some m) \<and> m \<noteq> []
            \<longrightarrow> (\<exists>r \<in> set (new_results st st'). breed r = b \<and> sub_breed r = s \<and> original_url r = m))"
proof -
  from download_breed_images_summary [OF assms] obtain cs rs where
    h: "calls st' = calls st @ cs" "results st' = results st @ rs" "files st' = files st"
     "\<forall>e \<in> set cs. own_event b e"
     "\<forall>r \<in> set rs. breed r = b \<and> disk_path r = folder_of b @ ''/'' @ filename r"
     "map record_outcome rs = upload_outcomes cs"
     "CreateFolder (folder_of b) (put_status w (length (calls st))) \<in> set cs"
     "\<forall>p c. CreateFolder p c \<in> set cs \<longrightarrow> c = put_status w (length (calls st))"
     "\<not> folder_ok (put_status w (length (calls st))) \<longrightarrow> rs = [] \<and> out = Done"
     "out = Done \<and> folder_ok (put_status w (length (calls st)))
          \<and> (\<forall>s q code body. GetBreedImage b s q code body \<in> set cs \<longrightarrow> resolves code body)
          \<longrightarrow> map sub_breed rs = (if subs = [] then [None] else map Some subs)"
     "out = Done \<longrightarrow>
          (\<forall>s q code body m. GetBreedImage b s q code body \<in> set cs
              \<and> image_result code body = Inr (Some m) \<and> m \<noteq> []
            \<longrightarrow> (\<exists>r \<in> set rs. breed r = b \<and> sub_breed r = s \<and> original_url r = m))"
    by (elim exE conjE)
  have c: "new_calls st st' = cs" by (rule new_calls_eq [OF h(1)])
  have r: "new_results st st' = rs" by (rule new_results_eq [OF h(2)])
  show "calls st' = calls st @ new_calls st st'" unfolding c by (rule h(1))
  show "results st' = results st @ new_results st st'" unfolding r by (rule h(2))
  show "files st' = files st" by (rule h(3))
  show "\<forall>e \<in> set (new_calls st st'). own_event b e" unfolding c by (rule h(4))
  show "\<forall>r \<in> set (new_results st st'). breed r = b \<and> disk_path r = folder_of b @ ''/'' @ filename r"
    unfolding r by (rule h(5))
  show "map record_outcome (new_results st st') = upload_outcomes (new_calls st st')"
    unfolding c r by (rule h(6))
  show "CreateFolder (folder_of b) (put_status w (length (calls st))) \<in> set (new_calls st st')"
    unfolding c by (rule h(7))
  show "\<forall>p c. CreateFolder p c \<in> set (new_calls st st') \<longrightarrow> c = put_status w (length (calls st))"
    unfolding c by (rule h(8))
  show "\<not> folder_ok (put_status w (length (calls st))) \<longrightarrow> new_results st st' = [] \<and> out = Done"
    unfolding r by (rule h(9))
  show "out = Done \<and> folder_ok (put_status w (length (calls st)))
          \<and> (\<forall>s q code body. GetBreedImage b s q code body \<in> set (new_calls st st') \<longrightarrow> resolves code body)
          \<longrightarrow> map sub_breed (new_results st st') = (if subs = [] then [None] else map Some subs)"
    unfolding c r by (rule h(10))
  show "out = Done \<longrightarrow>
          (\<forall>s q code body m. GetBreedImage b s q code body \<in> set (new_calls st st')
              \<and> image_result code body = Inr (Some m) \<and> m \<noteq> []
            \<longrightarrow> (\<exists>r \<in> set (new_results st st'). breed r = b \<and> sub_breed r = s \<and> original_url r = m))"
    unfolding c r by (rule h(11))
qed

lemma new_calls_refl [simp]: "new_calls st st = []"
  by (simp add: new_calls_def)

lemma new_results_refl [simp]: "new_results st st = []"
  by (simp add: new_results_def)

lemma download_all_prefix:
  "download_all w bs st = (out, st') \<Longrightarrow>
   calls st' = calls st @ new_calls st st' \<and> results st' = results st @ new_results st st'
     \<and> files st' = files st"
proof (induction bs arbitrary: st)
  case Nil
  then show ?case by auto
next
  case (Cons x rest)
  obtain b subs where x: "x = (b, subs)" by (cases x)
  from download_all_step [OF Cons.prems [unfolded x]]
  show ?case
  proof (elim disjE exE conjE)
    fix e
    assume d: "download_breed_images w b subs st = (Raised e, st')"
    from download_breed_images_delta(1-3) [OF d] show ?thesis by simp
  next
    fix st1
    assume d: "download_breed_images w b subs st = (Done, st1)"
      and r: "download_all w rest st1 = (out, st')"
    note a = download_breed_images_delta(1-3) [OF d]
    from Cons.IH [OF r] have i: "calls st' = calls st1 @ new_calls st1 st'"
      "results st' = results st1 @ new_results st1 st'" "files st' = files st1"
      by simp_all
    from new_calls_trans(2) [OF a(1) i(1)] new_results_trans(2) [OF a(2) i(2)] a(3) i(3)
    show ?thesis by simp
  qed
qed

lemma download_all_cons_cases:
  assumes "download_all w ((b, subs) # rest) st = (out, st')"
  obtains (raised) e where "download_breed_images w b subs st = (Raised e, st')" "out = Raised e"
  | (continued) st1 where "download_breed_images w b subs st = (Done, st1)"
      "download_all w rest st1 = (out, st')"
      "new_calls st st' = new_calls st st1 @ new_calls st1 st'"
      "new_results st st' = new_results st st1 @ new_results st1 st'"
proof -
  from download_all_step [OF assms] show thesis
  proof (elim disjE exE conjE)
    fix e
    assume "download_breed_images w b subs st = (Raised e, st')" "out = Raised e"
    then show thesis by (rule raised)
  next
    fix st1
    assume d: "download_breed_images w b subs st = (Done, st1)"
      and r: "download_all w rest st1 = (out, st')"
    note a = download_breed_images_delta(1-3) [OF d]
    from download_all_prefix [OF r] have i: "calls st' = calls st1 @ new_calls st1 st'"
      "results st' = results st1 @ new_results st1 st'"
      by simp_all
    from d r new_calls_trans(1) [OF a(1) i(1)] new_results_trans(1) [OF a(2) i(2)]
    show thesis by (rule continued)
  qed
qed

lemma download_all_events:
  "download_all w bs st = (out, st') \<Longrightarrow> e \<in> set (new_calls st st') \<Longrightarrow>
   \<exists>b \<in> fst ` set bs. own_event b e"
proof (induction bs arbitrary: st)
  case Nil
  then show ?case by auto
next
  case (Cons x rest)
  obtain b subs where x: "x = (b, subs)" by (cases x)
  from Cons.prems(1) [unfolded x] show ?case
  proof (cases rule: download_all_cons_cases)
    case (raised err)
    from download_breed_images_delta(4) [OF raised(1)] Cons.prems(2) x show ?thesis by auto
  next
    case (continued st1)
    from Cons.prems(2) continued(3)
    have "e \<in> set (new_calls st st1) \<or> e \<in> set (new_calls st1 st')" by simp
    then show ?thesis
    proof
      assume "e \<in> set (new_calls st st1)"
      with download_breed_images_delta(4) [OF continued(1)] x show ?thesis by auto
    next
      assume "e \<in> set (new_calls st1 st')"
      from Cons.IH [OF continued(2) this] show ?thesis by auto
    qed
  qed
qed

lemma download_all_records:
  "download_all w bs st = (out, st') \<Longrightarrow> r \<in> set (new_results st st') \<Longrightarrow>
   breed r \<in> fst ` set bs \<and> disk_path r = folder_of (breed r) @ ''/'' @ filename r"
proof (induction bs arbitrary: st)
  case Nil
  then show ?case by auto
next
  case (Cons x rest)
  obtain b subs where x: "x = (b, subs)" by (cases x)
  from Cons.prems(1) [unfolded x] show ?case
  proof (cases rule: download_all_cons_cases)
    case (raised err)
    from download_breed_images_delta(5) [OF raised(1)] Cons.prems(2) x show ?thesis by auto
  next
    case (continued st1)
    from Cons.prems(2) continued(4)
    have "r \<in> set (new_results st st1) \<or> r \<in> set (new_results st1 st')" by simp
    then show ?thesis
    proof
      assume "r \<in> set (new_results st st1)"
      with download_breed_images_delta(5) [OF continued(1)] x show ?thesis by auto
    next
      assume "r \<in> set (new_results st1 st')"
      from Cons.IH [OF continued(2) this] show ?thesis by auto
    qed
  qed
qed

lemma download_all_outcomes:
  "download_all w bs st = (out, st') \<Longrightarrow>
   map record_outcome (new_results st st') = upload_outcomes (new_calls st st')"
proof (induction bs arbitrary: st)
  case Nil
  then show ?case by auto
next
  case (Cons x rest)
  obtain b subs where x: "x = (b, subs)" by (cases x)
  from Cons.prems(1) [unfolded x] show ?case
  proof (cases rule: download_all_cons_cases)
    case (raised err)
    from download_breed_images_delta(6) [OF raised(1)] show ?thesis .
  next
    case (continued st1)
    from download_breed_images_delta(6) [OF continued(1)] Cons.IH [OF continued(2)]
    show ?thesis unfolding continued(3,4) by simp
  qed
qed

lemma download_all_attempted:
  "download_all w bs st = (Done, st') \<Longrightarrow> b \<in> fst ` set bs \<Longrightarrow>
   \<exists>c. CreateFolder (folder_of b) c \<in> set (new_calls st st')"
proof (induction bs arbitrary: st)
  case Nil
  then show ?case by auto
next
  case (Cons x rest)
  obtain b0 subs where x: "x = (b0, subs)" by (cases x)
  from Cons.prems(1) [unfolded x] show ?case
  proof (cases rule: download_all_cons_cases)
    case (raised err)
    then show ?thesis by simp
  next
    case (continued st1)
    show ?thesis
    proof (cases "b = b0")
      case True
      with download_breed_images_delta(7) [OF continued(1)] show ?thesis
        unfolding continued(3) by auto
    next
      case False
      with Cons.prems(2) x have "b \<in> fst ` set rest" by auto
      from Cons.IH [OF continued(2) this] show ?thesis unfolding continued(3) by auto
    qed
  qed
qed

lemma download_all_folder_once:
  "download_all w bs st = (out, st') \<Longrightarrow> distinct (map fst bs) \<Longrightarrow>
   CreateFolder (folder_of b) c1 \<in> set (new_calls st st') \<Longrightarrow>
   CreateFolder (folder_of b) c2 \<in> set (new_calls st st') \<Longrightarrow> c1 = c2"
proof (induction bs arbitrary: st)
  case Nil
  then show ?case by auto
next
  case (Cons x rest)
  obtain b0 subs where x: "x = (b0, subs)" by (cases x)
  from Cons.prems(2) x have nb0: "b0 \<notin> fst ` set rest" and dr: "distinct (map fst rest)" by auto
  from Cons.prems(1) [unfolded x] show ?case
  proof (cases rule: download_all_cons_cases)
    case (raised err)
    from download_breed_images_delta(8) [OF raised(1)] Cons.prems(3,4) show ?thesis by blast
  next
    case (continued st1)
    note own1 = download_breed_images_delta(4) [OF continued(1)]
    note code1 = download_breed_images_delta(8) [OF continued(1)]
    have in1: "\<And>c. CreateFolder (folder_of b) c \<in> set (new_calls st st1) \<Longrightarrow> b = b0"
      using own1 own_event_folder by blast
    have in2: "\<And>c. CreateFolder (folder_of b) c \<in> set (new_calls st1 st') \<Longrightarrow> b \<in> fst ` set rest"
    proof -
      fix c assume "CreateFolder (folder_of b) c \<in> set (new_calls st1 st')"
      from download_all_events [OF continued(2) this] obtain b' where
        "b' \<in> fst ` set rest" "own_event b' (CreateFolder (folder_of b) c)" by blast
      with own_event_folder show "b \<in> fst ` set rest" by blast
    qed
    from Cons.prems(3,4) continued(3)
    have e1: "CreateFolder (folder_of b) c1 \<in> set (new_calls st st1)
              \<or> CreateFolder (folder_of b) c1 \<in> set (new_calls st1 st')"
      and e2: "CreateFolder (folder_of b) c2 \<in> set (new_calls st st1)
              \<or> CreateFolder (folder_of b) c2 \<in> set (new_calls st1 st')"
      by simp_all
    show ?thesis
    proof (cases "b = b0")
      case True
      with nb0 in2 e1 e2 have "CreateFolder (folder_of b) c1 \<in> set (new_calls st st1)"
        "CreateFolder (folder_of b) c2 \<in> set (new_calls st st1)" by blast+
      with code1 show ?thesis by blast
    next
      case False
      with in1 e1 e2 have "CreateFolder (folder_of b) c1 \<in> set (new_calls st1 st')"
        "CreateFolder (folder_of b) c2 \<in> set (new_calls st1 st')" by blast+
      from Cons.IH [OF continued(2) dr this] show ?thesis .
    qed
  qed
qed

lemma download_all_failed_folder:
  "download_all w bs st = (out, st') \<Longrightarrow>
   \<forall>c. CreateFolder (folder_of b) c \<in> set (new_calls st st') \<longrightarrow> \<not> folder_ok c \<Longrightarrow>
   r \<in> set (new_results st st') \<Longrightarrow> breed r \<noteq> b"
proof (induction bs arbitrary: st)
  case Nil
  then show ?case by auto
next
  case (Cons x rest)
  obtain b0 subs where x: "x = (b0, subs)" by (cases x)
  have head: "breed r \<noteq> b"
    if d: "download_breed_images w b0 subs st = (o1, st1)"
      and f: "\<forall>c. CreateFolder (folder_of b) c \<in> set (new_calls st st1) \<longrightarrow> \<not> folder_ok c"
      and r: "r \<in> set (new_results st st1)" for o1 st1
  proof
    assume "breed r = b"
    with download_breed_images_delta(5) [OF d] r have "b = b0" by auto
    with f download_breed_images_delta(7) [OF d]
    have "\<not> folder_ok (put_status w (length (calls st)))" by blast
    with download_breed_images_delta(9) [OF d] r show False by simp
  qed
  from Cons.prems(1) [unfolded x] show ?case
  proof (cases rule: download_all_cons_cases)
    case (raised err)
    from head [OF raised(1) Cons.prems(2,3)] show ?thesis .
  next
    case (continued st1)
    from Cons.prems(2) continued(3)
    have f1: "\<forall>c. CreateFolder (folder_of b) c \<in> set (new_calls st st1) \<longrightarrow> \<not> folder_ok c"
      and f2: "\<forall>c. CreateFolder (folder_of b) c \<in> set (new_calls st1 st') \<longrightarrow> \<not> folder_ok c"
      by simp_all
    from Cons.prems(3) continued(4)
    have "r \<in> set (new_results st st1) \<or> r \<in> set (new_results st1 st')" by simp
    then show ?thesis
    proof
      assume "r \<in> set (new_results st st1)"
      from head [OF continued(1) f1 this] show ?thesis .
    next
      assume "r \<in> set (new_results st1 st')"
      from Cons.IH [OF continued(2) f2 this] show ?thesis .
    qed
  qed
qed

lemma download_all_covers:
  "download_all w bs st = (Done, st') \<Longrightarrow>
   GetBreedImage b s q code body \<in> set (new_calls st st') \<Longrightarrow>
   image_result code body = Inr (Some m) \<Longrightarrow> m \<noteq> [] \<Longrightarrow>
   \<exists>r \<in> set (new_results st st'). breed r = b \<and> sub_breed r = s \<and> original_url r = m"
proof (induction bs arbitrary: st)
  case Nil
  then show ?case by auto
next
  case (Cons x rest)
  obtain b0 subs where x: "x = (b0, subs)" by (cases x)
  from Cons.prems(1) [unfolded x] show ?case
  proof (cases rule: download_all_cons_cases)
    case (raised err)
    then show ?thesis by simp
  next
    case (continued st1)
    from Cons.prems(2) continued(3)
    have "GetBreedImage b s q code body \<in> set (new_calls st st1)
          \<or> GetBreedImage b s q code body \<in> set (new_calls st1 st')" by simp
    then show ?thesis
    proof
      assume e: "GetBreedImage b s q code body \<in> set (new_calls st st1)"
      with download_breed_images_delta(4) [OF continued(1)] own_event_query have "b = b0" by blast
      with download_breed_images_delta(11) [OF continued(1)] e Cons.prems(3,4)
      have "\<exists>r \<in> set (new_results st st1). breed r = b \<and> sub_breed r = s \<and> original_url r = m"
        by blast
      then show ?thesis unfolding continued(4) by auto
    next
      assume e: "GetBreedImage b s q code body \<in> set (new_calls st1 st')"
      from Cons.IH [OF continued(2) e Cons.prems(3,4)] show ?thesis unfolding continued(4) by auto
    qed
  qed
qed

lemma download_all_count:
  "download_all w bs st = (Done, st') \<Longrightarrow> distinct (map fst bs) \<Longrightarrow> map_of bs b = Some subs \<Longrightarrow>
   \<forall>c. CreateFolder (folder_of b) c \<in> set (new_calls st st') \<longrightarrow> folder_ok c \<Longrightarrow>
   \<forall>s q code body. GetBreedImage b s q code body \<in> set (new_calls st st') \<longrightarrow> resolves code body \<Longrightarrow>
   map sub_breed (filter (\<lambda>r. breed r = b) (new_results st st'))
     = (if subs = [] then [None] else map Some subs)"
proof (induction bs arbitrary: st)
  case Nil
  then show ?case by simp
next
  case (Cons x rest)
  obtain b0 subs0 where x: "x = (b0, subs0)" by (cases x)
  from Cons.prems(2) x have nb0: "b0 \<notin> fst ` set rest" and dr: "distinct (map fst rest)" by auto
  from Cons.prems(1) [unfolded x] show ?case
  proof (cases rule: download_all_cons_cases)
    case (raised err)
    then show ?thesis by simp
  next
    case (continued st1)
    from Cons.prems(4) continued(3)
    have f1: "\<forall>c. CreateFolder (folder_of b) c \<in> set (new_calls st st1) \<longrightarrow> folder_ok c"
      and f2: "\<forall>c. CreateFolder (folder_of b) c \<in> set (new_calls st1 st') \<longrightarrow> folder_ok c"
      by simp_all
    from Cons.prems(5) continued(3)
    have g1: "\<forall>s q code body. GetBreedImage b s q code body \<in> set (new_calls st st1) \<longrightarrow> resolves code body"
      and g2: "\<forall>s q code body. GetBreedImage b s q code body \<in> set (new_calls st1 st') \<longrightarrow> resolves code body"
      by simp_all
    note rec1 = download_breed_images_delta(5) [OF continued(1)]
    show ?thesis
    proof (cases "b = b0")
      case True
      with Cons.prems(3) x have subs: "subs = subs0" by simp
      from f1 True download_breed_images_delta(7) [OF continued(1)]
      have ok: "folder_ok (put_status w (length (calls st)))" by simp
      from g1 True
      have "\<forall>s q code body. GetBreedImage b0 s q code body \<in> set (new_calls st st1) \<longrightarrow> resolves code body"
        by simp
      with download_breed_images_delta(10) [OF continued(1)] ok
      have len: "map sub_breed (new_results st st1) = (if subs0 = [] then [None] else map Some subs0)"
        by simp
      have one: "filter (\<lambda>r. breed r = b) (new_results st st1) = new_results st st1"
        using rec1 True by (simp add: filter_id_conv)
      have "\<forall>r \<in> set (new_results st1 st'). breed r \<noteq> b"
        using download_all_records [OF continued(2)] nb0 True by blast
      then have two: "filter (\<lambda>r. breed r = b) (new_results st1 st') = []"
        by (simp add: filter_empty_conv)
      show ?thesis unfolding continued(4) using one two len subs by simp
    next
      case False
      with Cons.prems(3) x have m2: "map_of rest b = Some subs" by simp
      have one: "filter (\<lambda>r. breed r = b) (new_results st st1) = []"
        using rec1 False by (simp add: filter_empty_conv)
      from Cons.IH [OF continued(2) dr m2 f2 g2]
      show ?thesis unfolding continued(4) using one by simp
    qed
  qed
qed

lemma selected_distinct:
  "selected bs target = Some sel \<Longrightarrow> distinct (map fst bs) \<Longrightarrow> distinct (map fst sel)"
  by (auto simp add: selected_def split: option.splits if_splits)

lemma selected_map_of:
  "selected bs target = Some sel \<Longrightarrow> map_of sel b = Some subs \<Longrightarrow> map_of bs b = Some subs"
  by (auto simp add: selected_def split: option.splits if_splits)

lemma select_and_download_breeds:
  "select_and_download w target (PBreeds bs) st =
     (case selected bs target of
        None \<Rightarrow> (Done, st)
      | Some sel \<Rightarrow>
          (case download_all w sel st of
             (Raised e, st') \<Rightarrow> (Raised e, st')
           | (Done, st') \<Rightarrow> (Done, save_results_to_json ''download_results.json'' st')))"
  by (simp add: select_and_download_def selected_def download_target_def download_every_def
        split: option.splits prod.splits outcome.splits)

lemma select_and_download_string:
  "select_and_download w target (PStr s) st = (out, st') \<Longrightarrow> st' = st \<and> out \<noteq> Done \<or> st' = st \<and> out = Done"
  by (auto simp add: select_and_download_def download_target_def download_every_def
        split: option.splits if_splits)

lemma run_unfold:
  "run w target (init_state fs) =
     (if \<not> folder_ok (put_status w 0)
      then (Done, \<lparr>results = [], calls = [CreateFolder ''/PY-130(API)'' (put_status w 0)], files = fs\<rparr>)
      else if \<not> folder_ok (put_status w 1)
      then (Done, \<lparr>results = [],
                   calls = [CreateFolder ''/PY-130(API)'' (put_status w 0),
                            CreateFolder ''/PY-130(API)/dog_images'' (put_status w 1)],
                   files = fs\<rparr>)
      else if fst (catalog_response w 2) = 200
      then (case snd (catalog_response w 2) of
              None \<Rightarrow> (Raised JSONDecodeError, started w fs)
            | Some d \<Rightarrow>
                (case map_of d ''message'' of
                   None \<Rightarrow> (Done, started w fs)
                 | Some breeds \<Rightarrow> select_and_download w target breeds (started w fs)))
      else (Done, started w fs))"
proof (cases "catalog_response w (Suc (Suc 0))")
  case (Pair code body)
  then show ?thesis
    by (cases body)
       (simp_all add: run_def init_state_def create_folder_eq get_all_breeds_def catalog_result_def
          record_call_def started_def Let_def numeral_2_eq_2 split: option.splits)
qed

lemma save_results_simps [simp]:
  "results (save_results_to_json f st) = results st"
  "calls (save_results_to_json f st) = calls st"
  "files (save_results_to_json f st) = (files st)(f \<mapsto> results st)"
  by (simp_all add: save_results_to_json_def)

lemma select_and_download_cases:
  assumes "select_and_download w target (PBreeds bs) st = (out, st')"
  obtains (rejected) "selected bs target = None" "out = Done" "st' = st"
  | (raised) sel e where "selected bs target = Some sel" "download_all w sel st = (Raised e, st')"
      "out = Raised e"
  | (finalized) sel st1 where "selected bs target = Some sel" "download_all w sel st = (Done, st1)"
      "out = Done" "st' = save_results_to_json ''download_results.json'' st1"
proof (cases "selected bs target")
  case None
  with assms have "out = Done" "st' = st" by (simp_all add: select_and_download_breeds)
  with None show thesis by (rule rejected)
next
  case (Some sel)
  obtain o1 st1 where d: "download_all w sel st = (o1, st1)" by (cases "download_all w sel st")
  show thesis
  proof (cases o1)
    case Done
    with assms Some d have "out = Done" "st' = save_results_to_json ''download_results.json'' st1"
      by (simp_all add: select_and_download_breeds)
    with Some d Done show thesis by (auto intro: finalized)
  next
    case (Raised e)
    with assms Some d have "out = Raised e" "st' = st1"
      by (simp_all add: select_and_download_breeds)
    with Some d Raised show thesis by (auto intro: raised)
  qed
qed

lemma select_and_download_prefix:
  assumes "select_and_download w target breeds st = (out, st')"
  shows "results st' = results st @ new_results st st'"
    and "calls st' = calls st @ new_calls st st'"
    and "\<forall>e \<in> set (new_calls st st'). \<exists>b. own_event b e"
proof -
  have "results st' = results st @ new_results st st' \<and> calls st' = calls st @ new_calls st st'
      \<and> (\<forall>e \<in> set (new_calls st st'). \<exists>b. own_event b e)"
  proof (cases breeds)
    case (PStr s)
    with select_and_download_string assms have "st' = st" by blast
    then show ?thesis by simp
  next
    case (PBreeds bs)
    from assms [unfolded PBreeds] show ?thesis
    proof (cases rule: select_and_download_cases)
      case rejected
      then show ?thesis by simp
    next
      case (raised sel e)
      from download_all_prefix [OF raised(2)] download_all_events [OF raised(2)]
      show ?thesis by blast
    next
      case (finalized sel st1)
      from finalized(4) have eq: "new_results st st' = new_results st st1"
        "new_calls st st' = new_calls st st1" "results st' = results st1" "calls st' = calls st1"
        by (simp_all add: new_results_def new_calls_def)
      from download_all_prefix [OF finalized(2)] download_all_events [OF finalized(2)]
      show ?thesis unfolding eq by blast
    qed
  qed
  then show "results st' = results st @ new_results st st'"
    and "calls st' = calls st @ new_calls st st'"
    and "\<forall>e \<in> set (new_calls st st'). \<exists>b. own_event b e"
    by simp_all
qed

lemma started_simps [simp]:
  "results (started w fs) = []"
  "files (started w fs) = fs"
  "calls (started w fs) =
     [CreateFolder ''/PY-130(API)'' (put_status w 0),
      CreateFolder ''/PY-130(API)/dog_images'' (put_status w 1),
      GetAllBreeds (fst (catalog_response w 2)) (snd (catalog_response w 2))]"
  by (simp_all add: started_def)

lemma started_no_breed_folder: "CreateFolder (folder_of b) c \<notin> set (calls (started w fs))"
  by (simp add: folder_of_def)

lemma own_event_not_catalog: "\<not> own_event b (GetAllBreeds code body)"
  by (simp add: own_event_def)

lemma select_and_download_no_catalog:
  assumes "select_and_download w target breeds st = (out, st')"
    and "GetAllBreeds code body \<in> set (calls st')"
  shows "GetAllBreeds code body \<in> set (calls st)"
proof -
  note p = select_and_download_prefix [OF assms(1)]
  have "GetAllBreeds code body \<notin> set (new_calls st st')"
    using p(3) own_event_not_catalog by blast
  moreover from assms(2) have "GetAllBreeds code body \<in> set (calls st @ new_calls st st')"
    unfolding p(2) [symmetric] .
  ultimately show ?thesis by simp
qed

lemma run_fetched:
  assumes "run w target (init_state fs) = (out, st')" and "GetAllBreeds code body \<in> set (calls st')"
  shows "folder_ok (put_status w 0)" and "folder_ok (put_status w 1)"
    and "catalog_response w 2 = (code, body)"
proof -
  have ok0: "folder_ok (put_status w 0)"
  proof (rule ccontr)
    assume "\<not> folder_ok (put_status w 0)"
    with assms show False by (auto simp add: run_unfold)
  qed
  have ok1: "folder_ok (put_status w 1)"
  proof (rule ccontr)
    assume "\<not> folder_ok (put_status w 1)"
    with assms ok0 show False by (auto simp add: run_unfold)
  qed
  have "GetAllBreeds code body \<in> set (calls (started w fs))"
  proof (cases "\<exists>d breeds. fst (catalog_response w 2) = 200 \<and> snd (catalog_response w 2) = Some d
                  \<and> map_of d ''message'' = Some breeds")
    case True
    then obtain d breeds where "fst (catalog_response w 2) = 200" "snd (catalog_response w 2) = Some d"
      "map_of d ''message'' = Some breeds" by blast
    with assms(1) ok0 ok1 have "select_and_download w target breeds (started w fs) = (out, st')"
      by (simp add: run_unfold)
    from select_and_download_no_catalog [OF this assms(2)] show ?thesis .
  next
    case False
    with assms(1) ok0 ok1 have "st' = started w fs"
      by (auto simp add: run_unfold split: option.splits if_splits)
    with assms(2) show ?thesis by simp
  qed
  then have "code = fst (catalog_response w 2)" "body = snd (catalog_response w 2)" by simp_all
  then have cr: "catalog_response w 2 = (code, body)" by simp
  from ok0 ok1 cr show "folder_ok (put_status w 0)" and "folder_ok (put_status w 1)"
    and "catalog_response w 2 = (code, body)" by simp_all
qed

lemma run_listing:
  assumes "run w target (init_state fs) = (out, st')"
    and "GetAllBreeds 200 (Some d) \<in> set (calls st')"
    and "map_of d ''message'' = Some breeds"
  shows "select_and_download w target breeds (started w fs) = (out, st')"
proof -
  note f = run_fetched [OF assms(1,2)]
  from assms(1) f assms(3) show ?thesis by (simp add: run_unfold)
qed

section \<open>Properties of a run\<close>

text \<open>
  What \<^verbatim>\<open>get_breed_image\<close> returns: a URL exactly on an answer 200 whose payload has the
  status \<^verbatim>\<open>'success'\<close> and a message; \<^verbatim>\<open>None\<close> on any other status code and on a status
  marker other than \<^verbatim>\<open>'success'\<close>.
\<close>

lemma image_result_url:
  "image_result code body = Inr (Some m) \<longleftrightarrow>
     code = 200 \<and> (\<exists>data. body = Some data \<and> map_of data ''status'' = Some ''success''
                        \<and> map_of data ''message'' = Some m)"
  by (auto simp add: image_result_def split: option.splits if_splits)

lemma image_result_not_ok: "code \<noteq> 200 \<Longrightarrow> image_result code body = Inr None"
  by (simp add: image_result_def)

lemma image_result_other_status:
  "map_of data ''status'' = Some s \<Longrightarrow> s \<noteq> ''success'' \<Longrightarrow> image_result 200 (Some data) = Inr None"
  by (simp add: image_result_def)

text \<open>
  C4. The specification has \<^verbatim>\<open>get_breed_image\<close> return \<^verbatim>\<open>None\<close>, and never raise, also when the
  payload lacks the status marker. The code raises there: on an answer 200 whose payload has
  no \<^verbatim>\<open>'status'\<close> key, the subscript of line 85 is a \<open>KeyError\<close> (here for the payload
  \<^verbatim>\<open>{"message": "..."}\<close>), whatever the breed, the sub-breed and the state.
\<close>

theorem get_breed_image_missing_status_raises:
  "fst (get_breed_image
          (w\<lparr>image_response := \<lambda>n. (200, Some [(''message'', ''https://images.dog.ceo/a.jpg'')])\<rparr>)
          b sub st) = Inl KeyError"
  by (simp add: get_breed_image_eq image_result_def)

text \<open>
  C5. When the catalog listing returns the empty mapping (any answer other than 200, or the
  body \<^verbatim>\<open>{}\<close>), the run ends in the catalog stage: the trace is the two folder requests
  and the catalog request, no record exists and no file was written.
\<close>

theorem empty_catalog_aborts:
  assumes "run w target (init_state fs) = (out, st')"
    and "GetAllBreeds code body \<in> set (calls st')"
    and "catalog_result code body = Inr []"
  shows "out = Done \<and> results st' = [] \<and> files st' = fs
     \<and> calls st' = [CreateFolder ''/PY-130(API)'' (put_status w 0),
                    CreateFolder ''/PY-130(API)/dog_images'' (put_status w 1),
                    GetAllBreeds code body]"
proof -
  note f = run_fetched [OF assms(1,2)]
  from assms(3) have "code \<noteq> 200 \<or> body = Some []"
    by (auto simp add: catalog_result_def split: if_splits option.splits)
  moreover from f(3) have "fst (catalog_response w 2) = code" "snd (catalog_response w 2) = body"
    by simp_all
  ultimately have "out = Done" "st' = started w fs"
    using assms(1) f(1,2) by (auto simp add: run_unfold split: if_splits)
  with f(3) show ?thesis by simp
qed

theorem empty_catalog_aborts_witness:
  "run (sample_world\<lparr>catalog_response := \<lambda>n. (503, None)\<rparr>) None (init_state Map.empty)
     = (Done, started (sample_world\<lparr>catalog_response := \<lambda>n. (503, None)\<rparr>) Map.empty)
   \<and> GetAllBreeds 503 None
       \<in> set (calls (started (sample_world\<lparr>catalog_response := \<lambda>n. (503, None)\<rparr>) Map.empty))
   \<and> catalog_result 503 None = Inr []
   \<and> results (started (sample_world\<lparr>catalog_response := \<lambda>n. (503, None)\<rparr>) Map.empty) = []
   \<and> files (started (sample_world\<lparr>catalog_response := \<lambda>n. (503, None)\<rparr>) Map.empty) = Map.empty"
proof -
  let ?w = "sample_world\<lparr>catalog_response := \<lambda>n. (503, None)\<rparr>"
  have r: "run ?w None (init_state Map.empty) = (Done, started ?w Map.empty)"
    by (simp add: run_unfold sample_world_def folder_ok_def)
  have e: "GetAllBreeds 503 None \<in> set (calls (started ?w Map.empty))"
    by (simp add: sample_world_def)
  have c: "catalog_result 503 None = Inr []"
    by (simp add: catalog_result_def)
  from empty_catalog_aborts [OF r e c] r e c show ?thesis by simp
qed

text \<open>
  C8. A requested breed that is not a key of the catalog's listing ends the run at line 223:
  the trace holds the two folder requests and the catalog request only (no folder request and
  no upload request for the breed), no record exists and no manifest was written.
\<close>

theorem unknown_target_aborts:
  assumes "run w (Some t) (init_state fs) = (out, st')" and "t \<noteq> []"
    and "GetAllBreeds 200 (Some d) \<in> set (calls st')"
    and "map_of d ''message'' = Some (PBreeds bs)"
    and "t \<notin> fst ` set bs"
  shows "out = Done
     \<and> calls st' = [CreateFolder ''/PY-130(API)'' (put_status w 0),
                    CreateFolder ''/PY-130(API)/dog_images'' (put_status w 1),
                    GetAllBreeds 200 (Some d)]
     \<and> (\<forall>c. CreateFolder (folder_of t) c \<notin> set (calls st'))
     \<and> (\<forall>u p c. UploadFromUrl u p c \<notin> set (calls st'))
     \<and> results st' = [] \<and> files st' = fs"
proof -
  note f = run_fetched [OF assms(1,3)]
  from assms(5) have "map_of bs t = None" by (simp add: map_of_eq_None_iff)
  with assms(2) have "selected bs (Some t) = None" by (simp add: selected_def)
  with run_listing [OF assms(1,3,4)] have "out = Done" "st' = started w fs"
    by (simp_all add: select_and_download_breeds)
  with f(3) show ?thesis by (simp add: folder_of_def)
qed

theorem unknown_target_aborts_witness:
  "run sample_world (Some ''pug'') (init_state Map.empty) = (Done, started sample_world Map.empty)
   \<and> ''pug'' \<noteq> []
   \<and> GetAllBreeds 200 (Some sample_catalog) \<in> set (calls (started sample_world Map.empty))
   \<and> map_of sample_catalog ''message''
        = Some (PBreeds [(''akita'', []), (''husky'', [''siberian'', ''alaskan''])])
   \<and> ''pug'' \<notin> fst ` set [(''akita'', []), (''husky'', [''siberian'', ''alaskan''])]
   \<and> (\<forall>c. CreateFolder (folder_of ''pug'') c \<notin> set (calls (started sample_world Map.empty)))
   \<and> results (started sample_world Map.empty) = []
   \<and> files (started sample_world Map.empty) = Map.empty"
proof -
  have r: "run sample_world (Some ''pug'') (init_state Map.empty)
      = (Done, started sample_world Map.empty)"
    by (simp add: run_unfold sample_world_def sample_catalog_def folder_ok_def
          select_and_download_breeds selected_def)
  have t: "''pug'' \<noteq> []" by simp
  have e: "GetAllBreeds 200 (Some sample_catalog) \<in> set (calls (started sample_world Map.empty))"
    by (simp add: sample_world_def)
  have m: "map_of sample_catalog ''message''
      = Some (PBreeds [(''akita'', []), (''husky'', [''siberian'', ''alaskan''])])"
    by (simp add: sample_catalog_def)
  have n: "''pug'' \<notin> fst ` set [(''akita'', []), (''husky'', [''siberian'', ''alaskan''])]"
    by simp
  from unknown_target_aborts [OF r t e m n] r t e m n show ?thesis by simp
qed

text \<open>
  A run that got past the folders, the catalog and the selection and returned with no record
  has written the manifest, and the manifest is the empty array, whatever the file held
  before. This is about runs that return: a run that raises never reaches line 230.
\<close>

lemma returning_run_writes_empty_manifest:
  assumes "run w target (init_state fs) = (Done, st')"
    and "GetAllBreeds 200 (Some d) \<in> set (calls st')"
    and "map_of d ''message'' = Some (PBreeds bs)"
    and "selected bs target = Some sel"
    and "results st' = []"
  shows "files st' = fs(''download_results.json'' \<mapsto> [])"
proof -
  from run_listing [OF assms(1,2,3)] show ?thesis
  proof (cases rule: select_and_download_cases)
    case rejected
    with assms(4) show ?thesis by simp
  next
    case (raised sel e)
    then show ?thesis by simp
  next
    case (finalized sel st1)
    from download_all_prefix [OF finalized(2)] have "files st1 = fs" by simp
    moreover from finalized(4) assms(5) have "results st1 = []" by simp
    ultimately show ?thesis using finalized(4) by simp
  qed
qed

lemmas run_eval =
  run_unfold select_and_download_breeds selected_def download_breed_images_def create_folder_eq
  resolve_breed_def get_breed_image_eq image_result_def download_single_image_def
  extract_filename_from_url_def make_filename_def upload_eq folder_ok_def folder_of_def
  image_query_url_def record_call_def save_results_to_json_def started_def Let_def

lemma returning_run_writes_empty_manifest_sample:
  "run (sample_world\<lparr>put_status := \<lambda>n. if n = 3 then 500 else 201\<rparr>) (Some ''akita'')
       (init_state [''download_results.json'' \<mapsto>
          [\<lparr>breed = ''pug'', sub_breed = None, filename = ''pug_1.jpg'',
            original_url = ''https://images.dog.ceo/breeds/pug/1.jpg'',
            disk_path = ''/PY-130(API)/dog_images/pug/pug_1.jpg'', status = ''success''\<rparr>]])
     = (Done,
        \<lparr>results = [],
         calls = [CreateFolder ''/PY-130(API)'' 201,
                  CreateFolder ''/PY-130(API)/dog_images'' 201,
                  GetAllBreeds 200 (Some sample_catalog),
                  CreateFolder ''/PY-130(API)/dog_images/akita'' 500],
         files = [''download_results.json'' \<mapsto> []]\<rparr>)
   \<and> map_of sample_catalog ''message''
        = Some (PBreeds [(''akita'', []), (''husky'', [''siberian'', ''alaskan''])])
   \<and> selected [(''akita'', []), (''husky'', [''siberian'', ''alaskan''])] (Some ''akita'')
        = Some [(''akita'', [])]"
proof -
  let ?w = "sample_world\<lparr>put_status := \<lambda>n. if n = 3 then 500 else 201\<rparr>"
  let ?fs = "[''download_results.json'' \<mapsto>
          [\<lparr>breed = ''pug'', sub_breed = None, filename = ''pug_1.jpg'',
            original_url = ''https://images.dog.ceo/breeds/pug/1.jpg'',
            disk_path = ''/PY-130(API)/dog_images/pug/pug_1.jpg'', status = ''success''\<rparr>]]"
  let ?st = "\<lparr>results = [],
         calls = [CreateFolder ''/PY-130(API)'' 201,
                  CreateFolder ''/PY-130(API)/dog_images'' 201,
                  GetAllBreeds 200 (Some sample_catalog),
                  CreateFolder ''/PY-130(API)/dog_images/akita'' 500],
         files = [''download_results.json'' \<mapsto> []]\<rparr>"
  have r: "run ?w (Some ''akita'') (init_state ?fs) = (Done, ?st)"
    by (simp add: run_eval sample_world_def sample_catalog_def)
  have e: "GetAllBreeds 200 (Some sample_catalog) \<in> set (calls ?st)" by simp
  have m: "map_of sample_catalog ''message''
      = Some (PBreeds [(''akita'', []), (''husky'', [''siberian'', ''alaskan''])])"
    by (simp add: sample_catalog_def)
  have s: "selected [(''akita'', []), (''husky'', [''siberian'', ''alaskan''])] (Some ''akita'')
      = Some [(''akita'', [])]"
    by (simp add: selected_def)
  have n: "results ?st = []" by simp
  from returning_run_writes_empty_manifest [OF r e m s n] r m s show ?thesis by simp
qed

lemma sample_url_filename:
  "extract_filename_from_url w ''https://images.dog.ceo/breeds/husky/n02110063_8514.jpg''
     = Inr ''n02110063_8514.jpg''"
  by (simp add: extract_filename_from_url_def urlparse_path_def split_scheme_def split_netloc_def
        check_netloc_def uses_params_def splitparams_def unsafe_byte_def c0_or_space_def
        ascii_alpha_def ascii_upper_def ascii_lower_def ascii_digit_def scheme_char_def
        lower_char_def netloc_delim_def basename_def dirpart_def)

lemmas breed_eval =
  download_breed_images_def create_folder_eq resolve_breed_def get_breed_image_eq image_result_def
  download_single_image_def sample_url_filename make_filename_def upload_eq folder_ok_def
  folder_of_def image_query_url_def record_call_def save_results_to_json_def started_def Let_def

lemma sample_run_all:
  "run sample_world None (init_state Map.empty) =
     (Done,
      \<lparr>results =
         [\<lparr>breed = ''akita'', sub_breed = None, filename = ''akita_n02110063_8514.jpg'',
           original_url = ''https://images.dog.ceo/breeds/husky/n02110063_8514.jpg'',
           disk_path = ''/PY-130(API)/dog_images/akita/akita_n02110063_8514.jpg'',
           status = ''success''\<rparr>,
          \<lparr>breed = ''husky'', sub_breed = Some ''siberian'',
           filename = ''husky_siberian_n02110063_8514.jpg'',
           original_url = ''https://images.dog.ceo/breeds/husky/n02110063_8514.jpg'',
           disk_path = ''/PY-130(API)/dog_images/husky/husky_siberian_n02110063_8514.jpg'',
           status = ''error''\<rparr>,
          \<lparr>breed = ''husky'', sub_breed = Some ''alaskan'',
           filename = ''husky_alaskan_n02110063_8514.jpg'',
           original_url = ''https://images.dog.ceo/breeds/husky/n02110063_8514.jpg'',
           disk_path = ''/PY-130(API)/dog_images/husky/husky_alaskan_n02110063_8514.jpg'',
           status = ''error''\<rparr>],
       calls =
         [CreateFolder ''/PY-130(API)'' 201,
          CreateFolder ''/PY-130(API)/dog_images'' 201,
          GetAllBreeds 200 (Some sample_catalog),
          CreateFolder ''/PY-130(API)/dog_images/akita'' 201,
          GetBreedImage ''akita'' None ''https://dog.ceo/api/breed/akita/images/random'' 200
            (Some sample_image),
          UploadFromUrl ''https://images.dog.ceo/breeds/husky/n02110063_8514.jpg''
            ''/PY-130(API)/dog_images/akita/akita_n02110063_8514.jpg'' 202,
          CreateFolder ''/PY-130(API)/dog_images/husky'' 201,
          GetBreedImage ''husky'' (Some ''siberian'')
            ''https://dog.ceo/api/breed/husky/siberian/images/random'' 200 (Some sample_image),
          GetBreedImage ''husky'' (Some ''alaskan'')
            ''https://dog.ceo/api/breed/husky/alaskan/images/random'' 200 (Some sample_image),
          UploadFromUrl ''https://images.dog.ceo/breeds/husky/n02110063_8514.jpg''
            ''/PY-130(API)/dog_images/husky/husky_siberian_n02110063_8514.jpg'' 500,
          UploadFromUrl ''https://images.dog.ceo/breeds/husky/n02110063_8514.jpg''
            ''/PY-130(API)/dog_images/husky/husky_alaskan_n02110063_8514.jpg'' 500],
       files = [''download_results.json'' \<mapsto>
         [\<lparr>breed = ''akita'', sub_breed = None, filename = ''akita_n02110063_8514.jpg'',
           original_url = ''https://images.dog.ceo/breeds/husky/n02110063_8514.jpg'',
           disk_path = ''/PY-130(API)/dog_images/akita/akita_n02110063_8514.jpg'',
           status = ''success''\<rparr>,
          \<lparr>breed = ''husky'', sub_breed = Some ''siberian'',
           filename = ''husky_siberian_n02110063_8514.jpg'',
           original_url = ''https://images.dog.ceo/breeds/husky/n02110063_8514.jpg'',
           disk_path = ''/PY-130(API)/dog_images/husky/husky_siberian_n02110063_8514.jpg'',
           status = ''error''\<rparr>,
          \<lparr>breed = ''husky'', sub_breed = Some ''alaskan'',
           filename = ''husky_alaskan_n02110063_8514.jpg'',
           original_url = ''https://images.dog.ceo/breeds/husky/n02110063_8514.jpg'',
           disk_path = ''/PY-130(API)/dog_images/husky/husky_alaskan_n02110063_8514.jpg'',
           status = ''error''\<rparr>]]\<rparr>)"
  by (simp add: run_unfold select_and_download_breeds selected_def breed_eval
        sample_world_def sample_catalog_def sample_image_def)


text \<open>
  C2. In a run that returns, the listing \<open>bs\<close> having been fetched and \<open>b\<close> selected with the
  sub-breeds \<open>subs\<close>: when every request for the folder of \<open>b\<close> was answered with success and
  every image query for \<open>b\<close> resolved to a URL, the records of \<open>b\<close> are one record without
  sub-breed when \<open>b\<close> has no sub-breeds, and otherwise one record for each sub-breed, in the
  order of the listing. The keys of the listing are
  distinct, as those of a Python dictionary are.
\<close>

theorem one_record_per_sub_breed:
  assumes "run w target (init_state fs) = (Done, st')"
    and "GetAllBreeds 200 (Some d) \<in> set (calls st')"
    and "map_of d ''message'' = Some (PBreeds bs)" and "distinct (map fst bs)"
    and "selected bs target = Some sel" and "map_of sel b = Some subs"
    and "\<forall>c. CreateFolder (folder_of b) c \<in> set (calls st') \<longrightarrow> folder_ok c"
    and "\<forall>s q code body. GetBreedImage b s q code body \<in> set (calls st') \<longrightarrow> resolves code body"
  shows "map sub_breed (filter (\<lambda>r. breed r = b) (results st'))
           = (if subs = [] then [None] else map Some subs)
     \<and> length (filter (\<lambda>r. breed r = b) (results st')) = (if subs = [] then 1 else length subs)"
proof -
  have "map sub_breed (filter (\<lambda>r. breed r = b) (results st'))
      = (if subs = [] then [None] else map Some subs)"
    using run_listing [OF assms(1,2,3)]
  proof (cases rule: select_and_download_cases)
    case rejected
    with assms(5) show ?thesis by simp
  next
    case (raised sel e)
    then show ?thesis by simp
  next
    case (finalized sel1 st1)
    with assms(5) have da: "download_all w sel (started w fs) = (Done, st1)" by simp
    from download_all_prefix [OF da]
    have c: "calls st1 = calls (started w fs) @ new_calls (started w fs) st1"
      and r: "results st1 = new_results (started w fs) st1" by simp_all
    from finalized(4) have eq: "calls st' = calls st1" "results st' = results st1" by simp_all
    have sub: "set (new_calls (started w fs) st1) \<subseteq> set (calls st')"
    proof
      fix e assume "e \<in> set (new_calls (started w fs) st1)"
      then have "e \<in> set (calls (started w fs) @ new_calls (started w fs) st1)" by simp
      then show "e \<in> set (calls st')" unfolding eq(1) c [symmetric] .
    qed
    from assms(7) sub
    have f: "\<forall>c. CreateFolder (folder_of b) c \<in> set (new_calls (started w fs) st1) \<longrightarrow> folder_ok c"
      by blast
    from assms(8) sub
    have g: "\<forall>s q code body. GetBreedImage b s q code body \<in> set (new_calls (started w fs) st1)
               \<longrightarrow> resolves code body"
      by blast
    from download_all_count [OF da selected_distinct [OF assms(5,4)] assms(6) f g]
    show ?thesis unfolding eq(2) r [symmetric] .
  qed
  moreover from this
  have "length (map sub_breed (filter (\<lambda>r. breed r = b) (results st')))
      = length (if subs = [] then [None] else map Some subs)"
    by (rule arg_cong)
  then have "length (filter (\<lambda>r. breed r = b) (results st')) = (if subs = [] then 1 else length subs)"
    by (simp split: if_splits)
  ultimately show ?thesis by (rule conjI)
qed

theorem one_record_per_sub_breed_witness:
  "fst (run sample_world None (init_state Map.empty)) = Done
   \<and> GetAllBreeds 200 (Some sample_catalog) \<in> set (calls (snd (run sample_world None (init_state Map.empty))))
   \<and> map_of sample_catalog ''message''
        = Some (PBreeds [(''akita'', []), (''husky'', [''siberian'', ''alaskan''])])
   \<and> distinct (map fst [(''akita'', []), (''husky'', [''siberian'', ''alaskan''])])
   \<and> selected [(''akita'', []), (''husky'', [''siberian'', ''alaskan''])] None
        = Some [(''akita'', []), (''husky'', [''siberian'', ''alaskan''])]
   \<and> map_of [(''akita'', []), (''husky'', [''siberian'', ''alaskan''])] ''husky''
        = Some [''siberian'', ''alaskan'']
   \<and> map sub_breed (filter (\<lambda>r. breed r = ''husky'')
                         (results (snd (run sample_world None (init_state Map.empty)))))
        = [Some ''siberian'', Some ''alaskan'']
   \<and> length (filter (\<lambda>r. breed r = ''husky'')
               (results (snd (run sample_world None (init_state Map.empty))))) = 2"
proof -
  let ?bs = "[(''akita'', []), (''husky'', [''siberian'', ''alaskan''])]"
  let ?st = "snd (run sample_world None (init_state Map.empty))"
  have r: "run sample_world None (init_state Map.empty) = (Done, ?st)"
    by (simp add: sample_run_all)
  have r0: "fst (run sample_world None (init_state Map.empty)) = Done"
    by (simp add: sample_run_all)
  have e: "GetAllBreeds 200 (Some sample_catalog) \<in> set (calls ?st)"
    by (simp add: sample_run_all)
  have m: "map_of sample_catalog ''message'' = Some (PBreeds ?bs)"
    by (simp add: sample_catalog_def)
  have d: "distinct (map fst ?bs)" by simp
  have s: "selected ?bs None = Some ?bs" by (simp add: selected_def)
  have k: "map_of ?bs ''husky'' = Some [''siberian'', ''alaskan'']" by simp
  have f: "\<forall>c. CreateFolder (folder_of ''husky'') c \<in> set (calls ?st) \<longrightarrow> folder_ok c"
    by (auto simp add: sample_run_all folder_of_def folder_ok_def)
  have g: "\<forall>s q code body. GetBreedImage ''husky'' s q code body \<in> set (calls ?st)
             \<longrightarrow> resolves code body"
    by (auto simp add: sample_run_all resolves_def image_result_def sample_image_def)
  from one_record_per_sub_breed [OF r e m d s k f g] r0 e m d s k show ?thesis by simp
qed

lemma download_all_skips_failed_folder:
  "\<not> folder_ok (put_status w (length (calls st))) \<Longrightarrow>
   download_all w ((a, subs) # rest) st
     = download_all w rest (record_call (CreateFolder (folder_of a) (put_status w (length (calls st)))) st)"
  by (simp add: download_breed_images_def create_folder_eq)

text \<open>
  In a run over a listing with distinct keys where the folder request for breed \<open>A\<close> failed and
  the one for breed \<open>B\<close> succeeded: no record has breed \<open>A\<close>; when the run returns, every image
  query for \<open>B\<close> that resolved to a URL has its record, and the manifest holds the results. The
  failed folder itself ends nothing: the breed adds its folder request to the trace and the
  loop goes on with the remaining breeds. Whether the run returns is another matter, settled
  below.
\<close>

lemma failed_folder_isolated_when_run_returns:
  assumes "run w target (init_state fs) = (out, st')"
    and "GetAllBreeds 200 (Some d) \<in> set (calls st')"
    and "map_of d ''message'' = Some (PBreeds bs)" and "distinct (map fst bs)"
    and "CreateFolder (folder_of A) cA \<in> set (calls st')" and "\<not> folder_ok cA"
    and "CreateFolder (folder_of B) cB \<in> set (calls st')" and "folder_ok cB"
  shows "(\<forall>r \<in> set (results st'). breed r \<noteq> A)
     \<and> (out = Done \<longrightarrow>
          (\<forall>s q code body m. GetBreedImage B s q code body \<in> set (calls st')
              \<and> image_result code body = Inr (Some m) \<and> m \<noteq> []
            \<longrightarrow> (\<exists>r \<in> set (results st'). breed r = B \<and> sub_breed r = s \<and> original_url r = m)))
     \<and> (out = Done \<longrightarrow> files st' ''download_results.json'' = Some (results st'))
     \<and> (\<forall>st subs rest. \<not> folder_ok (put_status w (length (calls st))) \<longrightarrow>
          download_all w ((A, subs) # rest) st
            = download_all w rest
                (record_call (CreateFolder (folder_of A) (put_status w (length (calls st)))) st))"
proof -
  have main: "(\<forall>r \<in> set (results st'). breed r \<noteq> A)
     \<and> (out = Done \<longrightarrow>
          (\<forall>s q code body m. GetBreedImage B s q code body \<in> set (calls st')
              \<and> image_result code body = Inr (Some m) \<and> m \<noteq> []
            \<longrightarrow> (\<exists>r \<in> set (results st'). breed r = B \<and> sub_breed r = s \<and> original_url r = m)))
     \<and> (out = Done \<longrightarrow> files st' ''download_results.json'' = Some (results st'))"
    if da: "download_all w sel (started w fs) = (o1, st1)" and sel: "selected bs target = Some sel"
      and eq: "calls st' = calls st1" "results st' = results st1"
      and fin: "out = Done \<longrightarrow> o1 = Done \<and> files st' ''download_results.json'' = Some (results st')"
    for sel o1 st1
  proof -
    from download_all_prefix [OF da]
    have c: "calls st1 = calls (started w fs) @ new_calls (started w fs) st1"
      and r: "results st1 = new_results (started w fs) st1" by simp_all
    have new: "e \<in> set (new_calls (started w fs) st1)"
      if "e \<in> set (calls st')" "e \<notin> set (calls (started w fs))" for e
    proof -
      from that(1) have "e \<in> set (calls (started w fs) @ new_calls (started w fs) st1)"
        unfolding eq(1) c [symmetric] .
      with that(2) show ?thesis by simp
    qed
    from new [OF assms(5) started_no_breed_folder]
    have eA: "CreateFolder (folder_of A) cA \<in> set (new_calls (started w fs) st1)" .
    have "\<forall>c. CreateFolder (folder_of A) c \<in> set (new_calls (started w fs) st1) \<longrightarrow> \<not> folder_ok c"
      using download_all_folder_once [OF da selected_distinct [OF sel assms(4)] eA] assms(6) by blast
    from download_all_failed_folder [OF da this]
    have one: "\<forall>r \<in> set (results st'). breed r \<noteq> A" unfolding eq(2) r [symmetric] by blast
    have two: "\<exists>r \<in> set (results st'). breed r = B \<and> sub_breed r = s \<and> original_url r = m"
      if "out = Done" "GetBreedImage B s q code body \<in> set (calls st')"
        "image_result code body = Inr (Some m)" "m \<noteq> []" for s q code body m
    proof -
      from that(1) fin da have da': "download_all w sel (started w fs) = (Done, st1)" by simp
      have "GetBreedImage B s q code body \<notin> set (calls (started w fs))" by simp
      from new [OF that(2) this] download_all_covers [OF da' _ that(3,4)]
      show ?thesis unfolding eq(2) r [symmetric] by blast
    qed
    from one two fin show ?thesis by blast
  qed
  have "(\<forall>r \<in> set (results st'). breed r \<noteq> A)
     \<and> (out = Done \<longrightarrow>
          (\<forall>s q code body m. GetBreedImage B s q code body \<in> set (calls st')
              \<and> image_result code body = Inr (Some m) \<and> m \<noteq> []
            \<longrightarrow> (\<exists>r \<in> set (results st'). breed r = B \<and> sub_breed r = s \<and> original_url r = m)))
     \<and> (out = Done \<longrightarrow> files st' ''download_results.json'' = Some (results st'))"
    using run_listing [OF assms(1,2,3)]
  proof (cases rule: select_and_download_cases)
    case rejected
    with assms(5) started_no_breed_folder show ?thesis by blast
  next
    case (raised sel e)
    from raised(3) have "out = Done \<longrightarrow> Raised e = Done \<and> files st' ''download_results.json'' = Some (results st')"
      by simp
    from main [OF raised(2,1) refl refl this] show ?thesis .
  next
    case (finalized sel st1)
    from finalized(4) have eq: "calls st' = calls st1" "results st' = results st1" by simp_all
    from finalized(4)
    have "out = Done \<longrightarrow> Done = Done \<and> files st' ''download_results.json'' = Some (results st')"
      by simp
    from main [OF finalized(2,1) eq this] show ?thesis .
  qed
  with download_all_skips_failed_folder show ?thesis by blast
qed


lemma failed_folder_isolated_sample:
  "GetAllBreeds 200 (Some sample_catalog)
     \<in> set (calls (snd (run (sample_world\<lparr>put_status := \<lambda>n. if n = 3 then 500 else 201\<rparr>) None
                            (init_state Map.empty))))
   \<and> map_of sample_catalog ''message''
        = Some (PBreeds [(''akita'', []), (''husky'', [''siberian'', ''alaskan''])])
   \<and> distinct (map fst [(''akita'', []), (''husky'', [''siberian'', ''alaskan''])])
   \<and> CreateFolder (folder_of ''akita'') 500
        \<in> set (calls (snd (run (sample_world\<lparr>put_status := \<lambda>n. if n = 3 then 500 else 201\<rparr>) None
                               (init_state Map.empty))))
   \<and> \<not> folder_ok 500
   \<and> CreateFolder (folder_of ''husky'') 201
        \<in> set (calls (snd (run (sample_world\<lparr>put_status := \<lambda>n. if n = 3 then 500 else 201\<rparr>) None
                               (init_state Map.empty))))
   \<and> folder_ok 201
   \<and> map (\<lambda>r. (breed r, sub_breed r))
        (results (snd (run (sample_world\<lparr>put_status := \<lambda>n. if n = 3 then 500 else 201\<rparr>) None
                          (init_state Map.empty))))
        = [(''husky'', Some ''siberian''), (''husky'', Some ''alaskan'')]
   \<and> ''akita'' \<notin> breed ` set (results (snd (run (sample_world\<lparr>put_status := \<lambda>n. if n = 3 then 500 else 201\<rparr>)
                                           None (init_state Map.empty))))
   \<and> files (snd (run (sample_world\<lparr>put_status := \<lambda>n. if n = 3 then 500 else 201\<rparr>) None
                     (init_state Map.empty))) ''download_results.json''
        = Some (results (snd (run (sample_world\<lparr>put_status := \<lambda>n. if n = 3 then 500 else 201\<rparr>)
                                 None (init_state Map.empty))))"
proof -
  let ?w = "sample_world\<lparr>put_status := \<lambda>n. if n = 3 then 500 else 201\<rparr>"
  let ?bs = "[(''akita'', []), (''husky'', [''siberian'', ''alaskan''])]"
  let ?st = "snd (run ?w None (init_state Map.empty))"
  note ev = run_unfold select_and_download_breeds selected_def breed_eval
    sample_world_def sample_catalog_def sample_image_def
  have r: "run ?w None (init_state Map.empty) = (Done, ?st)" by (simp add: ev)
  have e: "GetAllBreeds 200 (Some sample_catalog) \<in> set (calls ?st)" by (simp add: ev)
  have m: "map_of sample_catalog ''message'' = Some (PBreeds ?bs)"
    by (simp add: sample_catalog_def)
  have d: "distinct (map fst ?bs)" by simp
  have a: "CreateFolder (folder_of ''akita'') 500 \<in> set (calls ?st)" by (simp add: ev)
  have na: "\<not> folder_ok 500" by (simp add: folder_ok_def)
  have b: "CreateFolder (folder_of ''husky'') 201 \<in> set (calls ?st)" by (simp add: ev)
  have ob: "folder_ok 201" by (simp add: folder_ok_def)
  have rs: "map (\<lambda>r. (breed r, sub_breed r)) (results ?st)
      = [(''husky'', Some ''siberian''), (''husky'', Some ''alaskan'')]" by (simp add: ev)
  from failed_folder_isolated_when_run_returns [OF r e m d a na b ob] e m d a na b ob rs
  show ?thesis by auto
qed

lemma select_and_download_outcomes:
  assumes "select_and_download w target breeds st = (out, st')"
  shows "map record_outcome (new_results st st') = upload_outcomes (new_calls st st')"
proof (cases breeds)
  case (PStr s)
  with select_and_download_string assms have "st' = st" by blast
  then show ?thesis by simp
next
  case (PBreeds bs)
  from assms [unfolded PBreeds] show ?thesis
  proof (cases rule: select_and_download_cases)
    case rejected
    then show ?thesis by simp
  next
    case (raised sel e)
    from download_all_outcomes [OF raised(2)] show ?thesis .
  next
    case (finalized sel st1)
    from finalized(4) have eq: "new_results st st' = new_results st st1"
      "new_calls st st' = new_calls st st1"
      by (simp_all add: new_results_def new_calls_def)
    from download_all_outcomes [OF finalized(2)] show ?thesis unfolding eq .
  qed
qed

lemma run_outcomes:
  assumes "run w target (init_state fs) = (out, st')"
  shows "map record_outcome (results st') = upload_outcomes (calls st')"
proof (cases "\<exists>breeds. select_and_download w target breeds (started w fs) = (out, st')")
  case True
  then obtain breeds where s: "select_and_download w target breeds (started w fs) = (out, st')"
    by blast
  note p = select_and_download_prefix(1,2) [OF s]
  have r: "results st' = new_results (started w fs) st'" using p(1) by simp
  have "upload_outcomes (calls st') = upload_outcomes (calls (started w fs) @ new_calls (started w fs) st')"
    using p(2) by simp
  also have "\<dots> = upload_outcomes (new_calls (started w fs) st')" by simp
  finally show ?thesis using select_and_download_outcomes [OF s] r by simp
next
  case False
  with assms have "st' = \<lparr>results = [], calls = [CreateFolder ''/PY-130(API)'' (put_status w 0)], files = fs\<rparr>
     \<or> st' = \<lparr>results = [],
                   calls = [CreateFolder ''/PY-130(API)'' (put_status w 0),
                            CreateFolder ''/PY-130(API)/dog_images'' (put_status w 1)],
                   files = fs\<rparr>
     \<or> st' = started w fs"
    by (auto simp add: run_unfold split: if_splits option.splits)
  then show ?thesis by auto
qed

lemma run_prefix:
  assumes "run w target st = (out, st')"
  shows "results st' = results st @ new_results st st'"
proof -
  define st1 where "st1 = record_call (CreateFolder ''/PY-130(API)'' (put_status w (length (calls st)))) st"
  define st2 where "st2 = record_call (CreateFolder ''/PY-130(API)/dog_images''
      (put_status w (length (calls st1)))) st1"
  define st3 where "st3 = record_call (GetAllBreeds (fst (catalog_response w (length (calls st2))))
      (snd (catalog_response w (length (calls st2))))) st2"
  have same: "results st1 = results st" "results st2 = results st" "results st3 = results st"
    by (simp_all add: st1_def st2_def st3_def)
  from assms have "st' = st1 \<or> st' = st2 \<or> st' = st3
      \<or> (\<exists>breeds. select_and_download w target breeds st3 = (out, st'))"
    by (auto simp add: run_def create_folder_eq get_all_breeds_def Let_def st1_def st2_def st3_def
          split: if_splits prod.splits sum.splits option.splits)
  then show ?thesis
  proof (elim disjE exE)
    fix breeds
    assume "select_and_download w target breeds st3 = (out, st')"
    from select_and_download_prefix(1) [OF this] have "results st' = results st @ new_results st3 st'"
      using same by simp
    from this new_results_eq [OF this] show ?thesis by simp
  qed (simp_all add: same new_results_def)
qed


lemma basename_trailing_slash: "p \<noteq> [] \<Longrightarrow> last p = CHR ''/'' \<Longrightarrow> basename p = []"
  by (cases p rule: rev_cases) (simp_all add: basename_def)



text \<open>
  C1. A call of \<^verbatim>\<open>download_single_image\<close> that reaches the upload step (\<^verbatim>\<open>urlparse\<close> accepts
  the URL, so that line 166 is executed) makes one upload request and appends one record,
  with status \<^verbatim>\<open>success\<close> or \<^verbatim>\<open>error\<close> after the answer; a call that \<^verbatim>\<open>urlparse\<close> stops raises
  with the state untouched. No operation of the run changes or removes a record: the results
  after \<^verbatim>\<open>download_single_image\<close>, \<^verbatim>\<open>download_breed_images\<close>, \<^verbatim>\<open>save_results_to_json\<close> and
  \<^verbatim>\<open>run\<close> are the results before, followed by what was appended.
\<close>

theorem one_record_per_upload_step:
  "(extract_filename_from_url w (img_url c) = Inr fn \<longrightarrow>
      download_single_image w c folder st =
        (Done, st\<lparr>results := results st @
                    [\<lparr>breed = img_breed c, sub_breed = img_sub_breed c,
                      filename = make_filename (img_breed c) (img_sub_breed c) fn,
                      original_url = img_url c,
                      disk_path = folder @ ''/'' @ make_filename (img_breed c) (img_sub_breed c) fn,
                      status = (if post_status w (length (calls st)) = 202 then ''success'' else ''error'')\<rparr>],
                  calls := calls st @
                    [UploadFromUrl (img_url c)
                       (folder @ ''/'' @ make_filename (img_breed c) (img_sub_breed c) fn)
                       (post_status w (length (calls st)))]\<rparr>))
   \<and> (extract_filename_from_url w (img_url c) = Inl e \<longrightarrow>
        download_single_image w c folder st = (Raised e, st))
   \<and> results (snd (download_single_image w c folder st))
        = results st @ new_results st (snd (download_single_image w c folder st))
   \<and> results (snd (download_breed_images w b subs st))
        = results st @ new_results st (snd (download_breed_images w b subs st))
   \<and> results (save_results_to_json f st) = results st
   \<and> results (snd (run w target st)) = results st @ new_results st (snd (run w target st))"
proof (intro conjI impI)
  assume "extract_filename_from_url w (img_url c) = Inr fn"
  then show "download_single_image w c folder st =
        (Done, st\<lparr>results := results st @
                    [\<lparr>breed = img_breed c, sub_breed = img_sub_breed c,
                      filename = make_filename (img_breed c) (img_sub_breed c) fn,
                      original_url = img_url c,
                      disk_path = folder @ ''/'' @ make_filename (img_breed c) (img_sub_breed c) fn,
                      status = (if post_status w (length (calls st)) = 202 then ''success'' else ''error'')\<rparr>],
                  calls := calls st @
                    [UploadFromUrl (img_url c)
                       (folder @ ''/'' @ make_filename (img_breed c) (img_sub_breed c) fn)
                       (post_status w (length (calls st)))]\<rparr>)"
    by (rule download_single_image_done)
next
  assume "extract_filename_from_url w (img_url c) = Inl e"
  then show "download_single_image w c folder st = (Raised e, st)"
    by (rule download_single_image_raised)
next
  show "results (snd (download_single_image w c folder st))
        = results st @ new_results st (snd (download_single_image w c folder st))"
    by (cases "extract_filename_from_url w (img_url c)")
       (simp_all add: download_single_image_raised download_single_image_done new_results_def)
next
  show "results (snd (download_breed_images w b subs st))
        = results st @ new_results st (snd (download_breed_images w b subs st))"
    by (rule download_breed_images_delta(2)) (rule surjective_pairing)
next
  show "results (save_results_to_json f st) = results st" by simp
next
  show "results (snd (run w target st)) = results st @ new_results st (snd (run w target st))"
    by (rule run_prefix) (rule surjective_pairing)
qed

theorem one_record_per_upload_step_witness:
  "extract_filename_from_url sample_world
       ''https://images.dog.ceo/breeds/husky/n02110063_8514.jpg'' = Inr ''n02110063_8514.jpg''
   \<and> download_single_image sample_world
        \<lparr>img_url = ''https://images.dog.ceo/breeds/husky/n02110063_8514.jpg'', img_breed = ''husky'',
         img_sub_breed = Some ''siberian''\<rparr>
        ''/PY-130(API)/dog_images/husky'' (init_state Map.empty)
      = (Done,
         \<lparr>results =
            [\<lparr>breed = ''husky'', sub_breed = Some ''siberian'',
              filename = ''husky_siberian_n02110063_8514.jpg'',
              original_url = ''https://images.dog.ceo/breeds/husky/n02110063_8514.jpg'',
              disk_path = ''/PY-130(API)/dog_images/husky/husky_siberian_n02110063_8514.jpg'',
              status = ''error''\<rparr>],
          calls =
            [UploadFromUrl ''https://images.dog.ceo/breeds/husky/n02110063_8514.jpg''
               ''/PY-130(API)/dog_images/husky/husky_siberian_n02110063_8514.jpg'' 500],
          files = Map.empty\<rparr>)"
  using one_record_per_upload_step
    [where w = sample_world and fn = "''n02110063_8514.jpg''"
       and c = "\<lparr>img_url = ''https://images.dog.ceo/breeds/husky/n02110063_8514.jpg'',
                 img_breed = ''husky'', img_sub_breed = Some ''siberian''\<rparr>"
       and folder = "''/PY-130(API)/dog_images/husky''" and st = "init_state Map.empty"]
  by (simp add: sample_url_filename make_filename_def init_state_def sample_world_def)

text \<open>
  C6. When the upload request of a candidate is answered with anything but 202, the call
  returns having made that one request (no second attempt) and appended the record with
  status \<^verbatim>\<open>error\<close>, whose \<^verbatim>\<open>original_url\<close> and \<^verbatim>\<open>disk_path\<close> are the URL and the path that
  were requested; the record has the six fields of the manifest. Over a whole run the records
  are, in order, the upload requests of the trace with the status their answer gives: no
  failed request is without its record.
\<close>

theorem failed_transfer_is_recorded:
  assumes "extract_filename_from_url w (img_url c) = Inr fn"
    and "post_status w (length (calls st)) \<noteq> 202"
  shows "download_single_image w c folder st =
        (Done, st\<lparr>results := results st @
                    [\<lparr>breed = img_breed c, sub_breed = img_sub_breed c,
                      filename = make_filename (img_breed c) (img_sub_breed c) fn,
                      original_url = img_url c,
                      disk_path = folder @ ''/'' @ make_filename (img_breed c) (img_sub_breed c) fn,
                      status = ''error''\<rparr>],
                  calls := calls st @
                    [UploadFromUrl (img_url c)
                       (folder @ ''/'' @ make_filename (img_breed c) (img_sub_breed c) fn)
                       (post_status w (length (calls st)))]\<rparr>)
     \<and> (\<forall>target fs. map record_outcome (results (snd (run w target (init_state fs))))
           = upload_outcomes (calls (snd (run w target (init_state fs)))))
     \<and> upload_outcomes [UploadFromUrl u p (post_status w (length (calls st)))] = [(u, p, ''error'')]"
proof (intro conjI allI)
  from assms(2) download_single_image_done [OF assms(1)]
  show "download_single_image w c folder st =
        (Done, st\<lparr>results := results st @
                    [\<lparr>breed = img_breed c, sub_breed = img_sub_breed c,
                      filename = make_filename (img_breed c) (img_sub_breed c) fn,
                      original_url = img_url c,
                      disk_path = folder @ ''/'' @ make_filename (img_breed c) (img_sub_breed c) fn,
                      status = ''error''\<rparr>],
                  calls := calls st @
                    [UploadFromUrl (img_url c)
                       (folder @ ''/'' @ make_filename (img_breed c) (img_sub_breed c) fn)
                       (post_status w (length (calls st)))]\<rparr>)"
    by simp
next
  fix target fs
  show "map record_outcome (results (snd (run w target (init_state fs))))
      = upload_outcomes (calls (snd (run w target (init_state fs))))"
    by (rule run_outcomes) (rule surjective_pairing)
next
  from assms(2) show "upload_outcomes [UploadFromUrl u p (post_status w (length (calls st)))]
      = [(u, p, ''error'')]" by simp
qed


theorem failed_transfer_is_recorded_witness:
  "extract_filename_from_url sample_world
       ''https://images.dog.ceo/breeds/husky/n02110063_8514.jpg'' = Inr ''n02110063_8514.jpg''
   \<and> post_status sample_world (length (calls (init_state Map.empty))) \<noteq> 202
   \<and> download_single_image sample_world
        \<lparr>img_url = ''https://images.dog.ceo/breeds/husky/n02110063_8514.jpg'', img_breed = ''husky'',
         img_sub_breed = None\<rparr>
        ''/PY-130(API)/dog_images/husky'' (init_state Map.empty)
      = (Done,
         \<lparr>results =
            [\<lparr>breed = ''husky'', sub_breed = None, filename = ''husky_n02110063_8514.jpg'',
              original_url = ''https://images.dog.ceo/breeds/husky/n02110063_8514.jpg'',
              disk_path = ''/PY-130(API)/dog_images/husky/husky_n02110063_8514.jpg'',
              status = ''error''\<rparr>],
          calls =
            [UploadFromUrl ''https://images.dog.ceo/breeds/husky/n02110063_8514.jpg''
               ''/PY-130(API)/dog_images/husky/husky_n02110063_8514.jpg'' 500],
          files = Map.empty\<rparr>)"
proof -
  let ?c = "\<lparr>img_url = ''https://images.dog.ceo/breeds/husky/n02110063_8514.jpg'',
             img_breed = ''husky'', img_sub_breed = None\<rparr>"
  have f: "extract_filename_from_url sample_world (img_url ?c) = Inr ''n02110063_8514.jpg''"
    by (simp add: sample_url_filename)
  have p: "post_status sample_world (length (calls (init_state Map.empty))) \<noteq> 202"
    by (simp add: sample_world_def init_state_def)
  from failed_transfer_is_recorded [OF f p, of "''/PY-130(API)/dog_images/husky''"] f p
  show ?thesis by (simp add: make_filename_def init_state_def sample_world_def)
qed

text \<open>
  C10. When the path of the candidate's URL ends with a slash, its basename is the empty string
  and the file name is the breed and an underscore, with the sub-breed and another underscore
  when the candidate has a (non-empty) sub-breed; the upload is requested for that name and
  the record is appended.
\<close>

theorem trailing_slash_gives_empty_basename:
  assumes "urlparse_path w (img_url c) = Inr p" and "p \<noteq> []" and "last p = CHR ''/''"
  shows "extract_filename_from_url w (img_url c) = Inr []
     \<and> (\<forall>s. img_sub_breed c = Some s \<and> s \<noteq> [] \<longrightarrow>
          make_filename (img_breed c) (img_sub_breed c) [] = img_breed c @ ''_'' @ s @ ''_'')
     \<and> (\<not> truthy (img_sub_breed c) \<longrightarrow>
          make_filename (img_breed c) (img_sub_breed c) [] = img_breed c @ ''_'')
     \<and> download_single_image w c folder st =
        (Done, st\<lparr>results := results st @
                    [\<lparr>breed = img_breed c, sub_breed = img_sub_breed c,
                      filename = make_filename (img_breed c) (img_sub_breed c) [],
                      original_url = img_url c,
                      disk_path = folder @ ''/'' @ make_filename (img_breed c) (img_sub_breed c) [],
                      status = (if post_status w (length (calls st)) = 202 then ''success'' else ''error'')\<rparr>],
                  calls := calls st @
                    [UploadFromUrl (img_url c)
                       (folder @ ''/'' @ make_filename (img_breed c) (img_sub_breed c) [])
                       (post_status w (length (calls st)))]\<rparr>)"
proof -
  from assms have e: "extract_filename_from_url w (img_url c) = Inr []"
    by (simp add: extract_filename_from_url_def basename_trailing_slash)
  have "\<forall>s. img_sub_breed c = Some s \<and> s \<noteq> [] \<longrightarrow>
          make_filename (img_breed c) (img_sub_breed c) [] = img_breed c @ ''_'' @ s @ ''_''"
    by (simp add: make_filename_def)
  moreover have "\<not> truthy (img_sub_breed c) \<longrightarrow>
          make_filename (img_breed c) (img_sub_breed c) [] = img_breed c @ ''_''"
    by (simp add: make_filename_def truthy_def split: option.splits)
  ultimately show ?thesis using e download_single_image_done [OF e] by blast
qed

lemma sample_urlparse_slash:
  "urlparse_path w ''https://images.dog.ceo/breeds/husky/'' = Inr ''/breeds/husky/''"
  by (simp add: urlparse_path_def split_scheme_def split_netloc_def
        check_netloc_def uses_params_def splitparams_def unsafe_byte_def c0_or_space_def
        ascii_alpha_def ascii_upper_def ascii_lower_def ascii_digit_def scheme_char_def
        lower_char_def netloc_delim_def basename_def dirpart_def)

theorem trailing_slash_gives_empty_basename_witness:
  "urlparse_path sample_world ''https://images.dog.ceo/breeds/husky/'' = Inr ''/breeds/husky/''
   \<and> ''/breeds/husky/'' \<noteq> [] \<and> last ''/breeds/husky/'' = CHR ''/''
   \<and> download_single_image sample_world
        \<lparr>img_url = ''https://images.dog.ceo/breeds/husky/'', img_breed = ''husky'',
         img_sub_breed = Some ''siberian''\<rparr>
        ''/PY-130(API)/dog_images/husky'' (init_state Map.empty)
      = (Done,
         \<lparr>results =
            [\<lparr>breed = ''husky'', sub_breed = Some ''siberian'', filename = ''husky_siberian_'',
              original_url = ''https://images.dog.ceo/breeds/husky/'',
              disk_path = ''/PY-130(API)/dog_images/husky/husky_siberian_'',
              status = ''error''\<rparr>],
          calls =
            [UploadFromUrl ''https://images.dog.ceo/breeds/husky/''
               ''/PY-130(API)/dog_images/husky/husky_siberian_'' 500],
          files = Map.empty\<rparr>)"
proof -
  let ?c = "\<lparr>img_url = ''https://images.dog.ceo/breeds/husky/'', img_breed = ''husky'',
             img_sub_breed = Some ''siberian''\<rparr>"
  have u: "urlparse_path sample_world (img_url ?c) = Inr ''/breeds/husky/''"
    by (simp add: sample_urlparse_slash)
  have n: "''/breeds/husky/'' \<noteq> []" by simp
  have l: "last ''/breeds/husky/'' = CHR ''/''" by simp
  from trailing_slash_gives_empty_basename [OF u n l, of "''/PY-130(API)/dog_images/husky''"
      "init_state Map.empty"] u n l
  show ?thesis by (simp add: make_filename_def init_state_def sample_world_def)
qed






text \<open>
  C7. The specification has a failed breed folder leave the rest of the run intact: every
  resolved candidate of a breed whose folder was created gets its record and the run goes on to
  the manifest. The code loses both when a later image query is answered 200 without status
  marker. Here the folder of \<open>akita\<close> fails (request 3) and the folder of \<open>husky\<close> is created;
  the query for \<open>siberian\<close> resolves to a URL; the query for \<open>alaskan\<close> (request 6) is answered
  with the payload \<^verbatim>\<open>{"message": "..."}\<close>. Line 85 raises \<open>KeyError\<close> while the candidates are
  still being collected: the run ends there, the resolved candidate of \<open>husky\<close> has no record, no
  upload was requested and no manifest exists.
\<close>

theorem failed_folder_run_lost_to_missing_status:
  "run (sample_world
         \<lparr>put_status := \<lambda>n. if n = 3 then 500 else 201,
          image_response := \<lambda>n. if n = 6
            then (200, Some [(''message'', ''https://images.dog.ceo/breeds/husky/n02110063_8514.jpg'')])
            else (200, Some sample_image)\<rparr>)
       None (init_state Map.empty)
     = (Raised KeyError,
        \<lparr>results = [],
         calls =
           [CreateFolder ''/PY-130(API)'' 201,
            CreateFolder ''/PY-130(API)/dog_images'' 201,
            GetAllBreeds 200 (Some sample_catalog),
            CreateFolder ''/PY-130(API)/dog_images/akita'' 500,
            CreateFolder ''/PY-130(API)/dog_images/husky'' 201,
            GetBreedImage ''husky'' (Some ''siberian'')
              ''https://dog.ceo/api/breed/husky/siberian/images/random'' 200 (Some sample_image),
            GetBreedImage ''husky'' (Some ''alaskan'')
              ''https://dog.ceo/api/breed/husky/alaskan/images/random'' 200
              (Some [(''message'', ''https://images.dog.ceo/breeds/husky/n02110063_8514.jpg'')])],
         files = Map.empty\<rparr>)
   \<and> folder_of ''akita'' = ''/PY-130(API)/dog_images/akita'' \<and> \<not> folder_ok 500
   \<and> folder_of ''husky'' = ''/PY-130(API)/dog_images/husky'' \<and> folder_ok 201
   \<and> image_result 200 (Some sample_image)
        = Inr (Some ''https://images.dog.ceo/breeds/husky/n02110063_8514.jpg'')"
  by (simp add: run_unfold select_and_download_breeds selected_def breed_eval
        sample_world_def sample_catalog_def sample_image_def)

text \<open>
  C9. The specification has a run that selected its breeds and made no record still write the
  manifest, an empty array, also when every image resolution fails. The code does not when the
  resolution fails by a payload without status marker: for the requested breed \<open>akita\<close>, the
  folders, the catalog and the selection pass and the one image query is answered 200 with the
  payload \<^verbatim>\<open>{"message": "..."}\<close>. Line 85 raises \<open>KeyError\<close>, the run ends with no record and
  line 230 is never reached: the manifest of an earlier run is still there, unchanged.
\<close>

theorem no_manifest_after_missing_status:
  "run (sample_world
         \<lparr>image_response := \<lambda>n.
            (200, Some [(''message'', ''https://images.dog.ceo/breeds/akita/1.jpg'')])\<rparr>)
       (Some ''akita'')
       (init_state [''download_results.json'' \<mapsto>
          [\<lparr>breed = ''pug'', sub_breed = None, filename = ''pug_1.jpg'',
            original_url = ''https://images.dog.ceo/breeds/pug/1.jpg'',
            disk_path = ''/PY-130(API)/dog_images/pug/pug_1.jpg'', status = ''success''\<rparr>]])
     = (Raised KeyError,
        \<lparr>results = [],
         calls =
           [CreateFolder ''/PY-130(API)'' 201,
            CreateFolder ''/PY-130(API)/dog_images'' 201,
            GetAllBreeds 200 (Some sample_catalog),
            CreateFolder ''/PY-130(API)/dog_images/akita'' 201,
            GetBreedImage ''akita'' None ''https://dog.ceo/api/breed/akita/images/random'' 200
              (Some [(''message'', ''https://images.dog.ceo/breeds/akita/1.jpg'')])],
         files = [''download_results.json'' \<mapsto>
          [\<lparr>breed = ''pug'', sub_breed = None, filename = ''pug_1.jpg'',
            original_url = ''https://images.dog.ceo/breeds/pug/1.jpg'',
            disk_path = ''/PY-130(API)/dog_images/pug/pug_1.jpg'', status = ''success''\<rparr>]]\<rparr>)
   \<and> selected [(''akita'', []), (''husky'', [''siberian'', ''alaskan''])] (Some ''akita'')
        = Some [(''akita'', [])]"
  by (simp add: run_unfold select_and_download_breeds selected_def breed_eval
        sample_world_def sample_catalog_def sample_image_def)

end
